theory Spec2Isabelle
  imports Complex_Main
begin

section \<open>Arrays\<close>

text \<open>
  The program computes on JAX arrays. An array is modelled by its shape and by the
  function that reads the entry at an index (a list of positions, one per axis). Entries
  are read only at indices inside the shape; what \<open>item\<close> returns elsewhere carries no
  meaning. Floating-point numbers are modelled by real numbers (no rounding). Integer
  arrays (token ids, segment ids, cache lengths) are \<open>int32\<close> in the program and arrays
  of integers here. The cache lengths that \<open>forward\<close> stores for the next call are
  wrapped to 32 bits, as the program's addition wraps; the index arithmetic within a call
  (mask positions, slice starts) has no wrap written out and is exact while the prior
  length plus the chunk length and the buffer length stay below \<open>2 ^ 31\<close>.

  Shape mismatches, which JAX rejects while it traces the program, are not branches of the
  model: the operations are total and are meant at the shapes the program gives them. The
  \<open>raise\<close> and \<open>assert\<close> statements of the source are branches of the model.
\<close>

record 'a array =
  shape :: "nat list"
  item :: "nat list \<Rightarrow> 'a"

datatype error =
    AssertionError
  | ValueError string
  | IndexError
  | TypeError
  | ZeroDivisionError
  | NotFinite \<comment> \<open>not an exception: a float division by zero, whose result (an infinity
      or NaN) is no real number\<close>

definition is_int32 :: "int \<Rightarrow> bool" where
  \<comment> \<open>the values of a 32-bit signed integer\<close>
  "is_int32 i \<longleftrightarrow> - (2 ^ 31) \<le> i \<and> i < 2 ^ 31"

definition int32 :: "int \<Rightarrow> int" where
  \<comment> \<open>the result of 32-bit signed arithmetic: the exact result wrapped around\<close>
  "int32 i = (i + 2 ^ 31) mod 2 ^ 32 - 2 ^ 31"

definition ndim :: "'a array \<Rightarrow> nat" where
  "ndim x = length (shape x)"

definition full :: "nat list \<Rightarrow> 'a \<Rightarrow> 'a array" where
  "full s c = \<lparr>shape = s, item = (\<lambda>idx. c)\<rparr>"

definition scalar :: "'a \<Rightarrow> 'a array" where
  \<comment> \<open>a Python number used in array arithmetic: an array of rank 0\<close>
  "scalar c = full [] c"

definition amap :: "('a \<Rightarrow> 'b) \<Rightarrow> 'a array \<Rightarrow> 'b array" where
  \<comment> \<open>an elementwise function of one array\<close>
  "amap f x = \<lparr>shape = shape x, item = (\<lambda>idx. f (item x idx))\<rparr>"

text \<open>
  NumPy broadcasting of two shapes: the shapes are aligned at their last axis, and on each
  axis a size 1 stretches to the other size. (JAX raises when two sizes differ and neither
  is 1; the model keeps the left size there.)
\<close>

definition bdim :: "nat \<Rightarrow> nat \<Rightarrow> nat" where
  "bdim m n = (if m = 1 then n else m)"

fun broadcast_rev :: "nat list \<Rightarrow> nat list \<Rightarrow> nat list" where
  "broadcast_rev [] ns = ns"
| "broadcast_rev ms [] = ms"
| "broadcast_rev (m # ms) (n # ns) = bdim m n # broadcast_rev ms ns"

definition broadcast_shapes :: "nat list \<Rightarrow> nat list \<Rightarrow> nat list" where
  "broadcast_shapes s1 s2 = rev (broadcast_rev (rev s1) (rev s2))"

definition bpos :: "nat \<Rightarrow> nat \<Rightarrow> nat" where
  \<comment> \<open>the position read on an axis of size \<open>d\<close> of an operand\<close>
  "bpos d i = (if d = 1 then 0 else i)"

definition bindex :: "nat list \<Rightarrow> nat list \<Rightarrow> nat list" where
  \<comment> \<open>the index into an operand of shape \<open>s\<close> that the index \<open>idx\<close> of the broadcast
      result reads: the last axes of \<open>idx\<close>, at position 0 on every axis of size 1\<close>
  "bindex s idx = map2 bpos s (drop (length idx - length s) idx)"

definition bop :: "('a \<Rightarrow> 'b \<Rightarrow> 'c) \<Rightarrow> 'a array \<Rightarrow> 'b array \<Rightarrow> 'c array" where
  \<comment> \<open>an elementwise function of two arrays, with broadcasting\<close>
  "bop f x y =
     \<lparr>shape = broadcast_shapes (shape x) (shape y),
      item = (\<lambda>idx. f (item x (bindex (shape x) idx)) (item y (bindex (shape y) idx)))\<rparr>"

definition add :: "'a::plus array \<Rightarrow> 'a array \<Rightarrow> 'a array" where
  "add = bop (+)"

definition sub :: "'a::minus array \<Rightarrow> 'a array \<Rightarrow> 'a array" where
  "sub = bop (-)"

definition mul :: "'a::times array \<Rightarrow> 'a array \<Rightarrow> 'a array" where
  "mul = bop (*)"

definition true_divide :: "real array \<Rightarrow> real array \<Rightarrow> real array" where
  \<comment> \<open>meant where the divisor has no zero entry\<close>
  "true_divide = bop (/)"

definition arange :: "nat \<Rightarrow> int array" where
  \<comment> \<open>\<open>jnp.arange(n)\<close>\<close>
  "arange n = \<lparr>shape = [n], item = (\<lambda>idx. int (idx ! 0))\<rparr>"

definition arange_step2 :: "nat \<Rightarrow> real array" where
  \<comment> \<open>\<open>jnp.arange(0, n, 2, dtype=jnp.float32)\<close>: 0, 2, 4, ... below \<open>n\<close>\<close>
  "arange_step2 n = \<lparr>shape = [(n + 1) div 2], item = (\<lambda>idx. real (2 * (idx ! 0)))\<rparr>"

definition expand_dims :: "nat \<Rightarrow> 'a array \<Rightarrow> 'a array" where
  \<comment> \<open>indexing with \<open>None\<close>: a new axis of size 1 at position \<open>k\<close>\<close>
  "expand_dims k x =
     \<lparr>shape = take k (shape x) @ [1] @ drop k (shape x),
      item = (\<lambda>idx. item x (take k idx @ drop (Suc k) idx))\<rparr>"

section \<open>Learning-rate schedule\<close>

text \<open>
  \<open>get_lr_with_cosine_decay_and_warmup\<close>. \<open>jax.lax.cond\<close> runs the branch the predicate
  selects. The divisions are float divisions: a zero divisor raises nothing and gives an
  infinity or NaN, which every later operation keeps non-finite.
\<close>

definition warmup :: "real \<Rightarrow> int \<Rightarrow> int \<Rightarrow> error + real" where
  "warmup max_lr warmup_steps s =
     (if warmup_steps = 0 then Inl NotFinite
      else Inr (max_lr * (real_of_int s / real_of_int warmup_steps)))"

definition cosine_decay :: "int \<Rightarrow> real \<Rightarrow> real \<Rightarrow> int \<Rightarrow> int \<Rightarrow> error + real" where
  "cosine_decay total_steps max_lr min_lr warmup_steps s =
     (if total_steps - warmup_steps = 0 then Inl NotFinite
      else
        let progress = real_of_int (s - warmup_steps) / real_of_int (total_steps - warmup_steps)
        in Inr (min_lr + 0.5 * (max_lr - min_lr) * (1 + cos (pi * progress))))"

definition get_lr_with_cosine_decay_and_warmup ::
  "int \<Rightarrow> int \<Rightarrow> real \<Rightarrow> real \<Rightarrow> int \<Rightarrow> error + real" where
  "get_lr_with_cosine_decay_and_warmup step total_steps max_lr min_lr warmup_steps =
     (if step < warmup_steps then warmup max_lr warmup_steps step
      else cosine_decay total_steps max_lr min_lr warmup_steps step)"

section \<open>Rotary position embeddings\<close>

definition fraction :: "nat \<Rightarrow> real array" where
  "fraction features = true_divide (arange_step2 features) (scalar (real features))"

definition timescale :: "nat \<Rightarrow> real \<Rightarrow> real \<Rightarrow> real array" where
  \<comment> \<open>\<open>min_timescale * (max_timescale / min_timescale) ** fraction\<close>, a power of a
      positive base\<close>
  "timescale features min_timescale max_timescale =
     mul (scalar min_timescale)
       (bop (powr) (scalar (max_timescale / min_timescale)) (fraction features))"

definition einsum_i_j :: "real array \<Rightarrow> real array \<Rightarrow> real array" where
  \<comment> \<open>\<open>jnp.einsum("i , j -> i j", a, b)\<close>\<close>
  "einsum_i_j a b =
     \<lparr>shape = [shape a ! 0, shape b ! 0],
      item = (\<lambda>idx. item a [idx ! 0] * item b [idx ! 1])\<rparr>"

definition generate_fixed_pos_embedding ::
  "nat \<Rightarrow> nat \<Rightarrow> real \<Rightarrow> real \<Rightarrow> real array \<times> real array" where
  "generate_fixed_pos_embedding features len min_timescale max_timescale =
     (let rotational_frequency =
            true_divide (scalar 1) (timescale features min_timescale max_timescale);
          sinusoid_inp = einsum_i_j (amap real_of_int (arange len)) rotational_frequency
      in (amap sin sinusoid_inp, amap cos sinusoid_inp))"


text \<open>
  \<open>apply_rotary_embedding\<close>. \<open>jnp.split(x, 2, axis=-1)\<close> raises a ValueError when the
  last axis has odd size.
\<close>

definition split_last :: "'a array \<Rightarrow> 'a array \<times> 'a array" where
  "split_last x =
     (let h = last (shape x) div 2
      in (\<lparr>shape = butlast (shape x) @ [h], item = item x\<rparr>,
          \<lparr>shape = butlast (shape x) @ [h],
           item = (\<lambda>idx. item x (butlast idx @ [last idx + h]))\<rparr>))"

definition concatenate_last :: "'a array \<Rightarrow> 'a array \<Rightarrow> 'a array" where
  "concatenate_last a b =
     \<lparr>shape = butlast (shape a) @ [last (shape a) + last (shape b)],
      item = (\<lambda>idx. if last idx < last (shape a) then item a idx
                     else item b (butlast idx @ [last idx - last (shape a)]))\<rparr>"

definition apply_rotary_embedding ::
  "real array \<Rightarrow> real array \<Rightarrow> real array \<Rightarrow> error + real array" where
  "apply_rotary_embedding x sin_t cos_t =
     (if ndim x \<noteq> 4 then Inl AssertionError
      else if \<not> (ndim sin_t = 3 \<and> ndim cos_t = 3) then Inl AssertionError
      else if odd (last (shape x)) then Inl (ValueError ''array split does not result in an equal division'')
      else
        let (x1, x2) = split_last x;
            sin_b = expand_dims 1 sin_t;
            cos_b = expand_dims 1 cos_t
        in Inr (concatenate_last (sub (mul x1 cos_b) (mul x2 sin_b))
                  (add (mul x2 cos_b) (mul x1 sin_b))))"

text \<open>
  \<open>jax.lax.dynamic_slice\<close> and \<open>dynamic_update_slice\<close> take a start index of any value:
  a negative one counts from the end, and the result is clamped so that the slice lies
  inside the operand (of size \<open>n\<close> on the axis, the slice of size \<open>m\<close>).
\<close>

definition clamp_start :: "int \<Rightarrow> nat \<Rightarrow> nat \<Rightarrow> nat" where
  "clamp_start start_index n m =
     (let i = (if start_index < 0 then start_index + int n else start_index)
      in nat (max 0 (min i (int n - int m))))"

definition slices_at :: "real array \<Rightarrow> int array \<Rightarrow> nat \<Rightarrow> real array" where
  \<comment> \<open>\<open>slice_at\<close> (a \<open>dynamic_slice_in_dim\<close> on axis 0) under \<open>jax.vmap\<close> over the indices\<close>
  "slices_at table indices len =
     \<lparr>shape = [shape indices ! 0, len, shape table ! 1],
      item = (\<lambda>idx. item table
                [clamp_start (item indices [idx ! 0]) (shape table ! 0) len + idx ! 1, idx ! 2])\<rparr>"

section \<open>Configuration, weights, cache\<close>

text \<open>
  The fields of \<open>Config\<close> that the computation reads; the sharding rules, the mesh and the
  weight dtype place and store arrays and do not change their values.
\<close>

record Config =
  d_model :: nat
  ffw_multiplier :: nat
  query_heads :: nat
  key_heads :: nat
  num_layers :: nat
  key_dim :: nat
  vocab_size :: nat
  max_seq_len :: nat
  causal :: bool
  use_attn_kernel :: bool
  max_lr :: real
  min_lr :: real
  warmup_steps :: int
  total_steps :: int

text \<open>The fields \<open>q\<close>, \<open>k\<close>, \<open>v\<close> of \<open>Layer\<close> are \<open>layer_q\<close>, \<open>layer_k\<close>, \<open>layer_v\<close> here.\<close>

record Layer =
  layer_q :: "real array"
  layer_k :: "real array"
  layer_v :: "real array"
  proj :: "real array"
  w1 :: "real array"
  w2 :: "real array"
  gamma1 :: "real array"
  gamma2 :: "real array"

record Weights =
  layers :: "Layer list"
  embedding :: "real array"
  vocab_proj :: "real array"

text \<open>The fields \<open>k\<close>, \<open>v\<close> of \<open>KVCache\<close> are \<open>cache_k\<close>, \<open>cache_v\<close> here.\<close>

record KVCache =
  cache_k :: "real array list"
  cache_v :: "real array list"
  lengths :: "int array"

definition KVCache_init :: "Config \<Rightarrow> nat \<Rightarrow> nat \<Rightarrow> KVCache" where
  "KVCache_init cfg batch_size max_len =
     \<lparr>cache_k = replicate (num_layers cfg) (full [batch_size, key_heads cfg, max_len, key_dim cfg] 0),
      cache_v = replicate (num_layers cfg) (full [batch_size, key_heads cfg, max_len, key_dim cfg] 0),
      lengths = full [batch_size] 0\<rparr>"

definition time_axis :: nat where
  "time_axis = 2"

text \<open>
  What the program takes from outside: the rounding of a number to \<open>bfloat16\<close> and to
  \<open>float32\<close> (\<open>astype\<close>), the fused flash-attention kernel of the Pallas TPU library, and
  the Gumbel noise that \<open>jax.random.categorical\<close> draws from a key for a shape.
\<close>

record backend =
  to_bfloat16 :: "real \<Rightarrow> real"
  to_float32 :: "real \<Rightarrow> real"
  flash_attention ::
    "real array \<Rightarrow> real array \<Rightarrow> real array \<Rightarrow> int array \<Rightarrow> int array \<Rightarrow> real \<Rightarrow> real array"
  gumbel :: "nat \<Rightarrow> nat list \<Rightarrow> real array"

section \<open>Attention\<close>

definition broadcasted_iota :: "nat list \<Rightarrow> nat \<Rightarrow> int array" where
  "broadcasted_iota s dimension = \<lparr>shape = s, item = (\<lambda>idx. int (idx ! dimension))\<rparr>"

definition make_attention_mask ::
  "nat \<Rightarrow> nat \<Rightarrow> int array \<Rightarrow> int array \<Rightarrow> int array \<Rightarrow> bool \<Rightarrow> bool array" where
  "make_attention_mask q_len k_len q_segment_ids k_segment_ids q_offset is_causal =
     (let segment_mask = bop (=) (expand_dims 2 q_segment_ids) (expand_dims 1 k_segment_ids);
          segment_mask = expand_dims 1 segment_mask
      in if is_causal then
           let qk = [1, 1, q_len, k_len];
               q_iota = broadcasted_iota qk 2;
               k_iota = broadcasted_iota qk 3;
               q_positions =
                 add q_iota (expand_dims 3 (expand_dims 2 (expand_dims 1 q_offset)));
               causal_mask = bop (\<ge>) q_positions k_iota;
               combined_mask = bop (\<and>) segment_mask causal_mask
           in combined_mask
         else segment_mask)"

definition einsum_bhtd_bhTd_bhtT :: "real array \<Rightarrow> real array \<Rightarrow> real array" where
  \<comment> \<open>\<open>jnp.einsum("bhtd,bhTd->bhtT", q, k)\<close>\<close>
  "einsum_bhtd_bhTd_bhtT q k =
     \<lparr>shape = [shape q ! 0, shape q ! 1, shape q ! 2, shape k ! 2],
      item = (\<lambda>idx. \<Sum>d<shape q ! 3.
                item q [idx ! 0, idx ! 1, idx ! 2, d] * item k [idx ! 0, idx ! 1, idx ! 3, d])\<rparr>"

definition einsum_bhtT_bhTd_bhtd :: "real array \<Rightarrow> real array \<Rightarrow> real array" where
  \<comment> \<open>\<open>jnp.einsum("bhtT,bhTd->bhtd", attn, v)\<close>\<close>
  "einsum_bhtT_bhTd_bhtd a v =
     \<lparr>shape = [shape a ! 0, shape a ! 1, shape a ! 2, shape v ! 3],
      item = (\<lambda>idx. \<Sum>j<shape a ! 3.
                item a [idx ! 0, idx ! 1, idx ! 2, j] * item v [idx ! 0, idx ! 1, j, idx ! 3])\<rparr>"

definition softmax :: "real array \<Rightarrow> real array" where
  \<comment> \<open>\<open>jax.nn.softmax(x, axis=-1)\<close>; the library subtracts the row maximum first, which
      leaves the quotient unchanged\<close>
  "softmax x =
     \<lparr>shape = shape x,
      item = (\<lambda>idx. exp (item x idx) /
                (\<Sum>j<last (shape x). exp (item x (butlast idx @ [j]))))\<rparr>"

definition sentinel :: real where
  "sentinel = - (10 ^ 30)"

text \<open>
  \<open>attention\<close>, the reference path. \<open>q.shape[-1] ** -0.5\<close> is a Python power of an integer:
  it raises ZeroDivisionError at 0. The row maximum \<open>max_score\<close> is computed and never
  used.
\<close>

definition attention ::
  "backend \<Rightarrow> real array \<Rightarrow> real array \<Rightarrow> real array \<Rightarrow> int array \<Rightarrow> int array \<Rightarrow> int array
     \<Rightarrow> Config \<Rightarrow> error + real array" where
  "attention be q k v q_segment_ids k_segment_ids q_offset cfg =
     (if last (shape q) = 0 then Inl ZeroDivisionError
      else
        let scale = 1 / sqrt (real (last (shape q)));
            qk = mul (einsum_bhtd_bhTd_bhtT q k) (scalar scale);
            mask = make_attention_mask (shape q ! 2) (shape k ! 2)
                     q_segment_ids k_segment_ids q_offset (causal cfg);
            qk = bop (\<lambda>m s. if m then s else sentinel) mask qk;
            attn = softmax (amap (to_float32 be) qk)
        in Inr (amap (to_bfloat16 be) (einsum_bhtT_bhTd_bhtd attn v)))"

definition attention_kernel ::
  "backend \<Rightarrow> real array \<Rightarrow> real array \<Rightarrow> real array \<Rightarrow> int array \<Rightarrow> int array
     \<Rightarrow> Config \<Rightarrow> error + real array" where
  "attention_kernel be q k v q_segment_ids kv_segment_ids cfg =
     (let q = amap (to_float32 be) q; k = amap (to_float32 be) k; v = amap (to_float32 be) v
      in if last (shape q) = 0 then Inl ZeroDivisionError
         else
           let scale = 1 / sqrt (real (last (shape q)))
           in Inr (amap (to_bfloat16 be)
                     (flash_attention be q k v q_segment_ids kv_segment_ids scale)))"

section \<open>Transformer block\<close>

definition mean_last_keepdims :: "real array \<Rightarrow> real array" where
  \<comment> \<open>\<open>jnp.mean(x, axis=-1, keepdims=True)\<close>\<close>
  "mean_last_keepdims x =
     \<lparr>shape = butlast (shape x) @ [1],
      item = (\<lambda>idx. (\<Sum>i<last (shape x). item x (butlast idx @ [i])) / real (last (shape x)))\<rparr>"

definition rms_norm :: "real array \<Rightarrow> real array \<Rightarrow> real array" where
  "rms_norm x gamma =
     (let rms = amap sqrt (add (mean_last_keepdims (amap (\<lambda>a. a ^ 2) x)) (scalar (1 / 10 ^ 6)))
      in true_divide (mul gamma x) rms)"

definition gelu :: "real \<Rightarrow> real" where
  \<comment> \<open>\<open>jax.nn.gelu\<close>, in its default tanh approximation\<close>
  "gelu x = 0.5 * x * (1 + tanh (sqrt (2 / pi) * (x + 0.044715 * x ^ 3)))"

definition einsum_btd_dhq_bhtq :: "real array \<Rightarrow> real array \<Rightarrow> real array" where
  \<comment> \<open>\<open>jnp.einsum("btd,dhq->bhtq", x, w)\<close>\<close>
  "einsum_btd_dhq_bhtq x w =
     \<lparr>shape = [shape x ! 0, shape w ! 1, shape x ! 1, shape w ! 2],
      item = (\<lambda>idx. \<Sum>d<shape x ! 2.
                item x [idx ! 0, idx ! 2, d] * item w [d, idx ! 1, idx ! 3])\<rparr>"

definition einsum_bhtq_hqd_btd :: "real array \<Rightarrow> real array \<Rightarrow> real array" where
  \<comment> \<open>\<open>jnp.einsum("bhtq,hqd->btd", a, w)\<close>\<close>
  "einsum_bhtq_hqd_btd a w =
     \<lparr>shape = [shape a ! 0, shape a ! 2, shape w ! 2],
      item = (\<lambda>idx. \<Sum>h<shape a ! 1. \<Sum>j<shape a ! 3.
                item a [idx ! 0, h, idx ! 1, j] * item w [h, j, idx ! 2])\<rparr>"

definition einsum_btd_df_btf :: "real array \<Rightarrow> real array \<Rightarrow> real array" where
  \<comment> \<open>\<open>jnp.einsum("btd,df->btf", x, w)\<close>, also written \<open>"btf,fd->btd"\<close> and
      \<open>"btd,dv->btv"\<close>\<close>
  "einsum_btd_df_btf x w =
     \<lparr>shape = [shape x ! 0, shape x ! 1, shape w ! 1],
      item = (\<lambda>idx. \<Sum>d<shape x ! 2. item x [idx ! 0, idx ! 1, d] * item w [d, idx ! 2])\<rparr>"

definition sum_last :: "int array \<Rightarrow> int array" where
  \<comment> \<open>\<open>jnp.sum(x, axis=-1)\<close>\<close>
  "sum_last x =
     \<lparr>shape = butlast (shape x),
      item = (\<lambda>idx. \<Sum>i<last (shape x). item x (idx @ [i]))\<rparr>"

definition nonzero :: "int array \<Rightarrow> int array" where
  \<comment> \<open>\<open>x != 0\<close>, the truth values as the integers that \<open>jnp.sum\<close> adds\<close>
  "nonzero x = amap (\<lambda>s. if s \<noteq> 0 then 1 else 0) x"

definition vmap_update :: "real array \<Rightarrow> real array \<Rightarrow> int array \<Rightarrow> real array" where
  \<comment> \<open>\<open>jax.vmap(update, in_axes=(0, 0, 0))(original, update, at)\<close>: for each batch row, a
      \<open>dynamic_update_slice_in_dim\<close> on the time axis, at that row's own start\<close>
  "vmap_update original upd start_indices =
     \<lparr>shape = shape original,
      item = (\<lambda>idx.
        let start = clamp_start (item start_indices [idx ! 0]) (shape original ! time_axis) (shape upd ! time_axis)
        in if idx ! 1 < shape upd ! 1 \<and> start \<le> idx ! 2 \<and> idx ! 2 < start + shape upd ! time_axis
              \<and> idx ! 3 < shape upd ! 3
           then item upd [idx ! 0, idx ! 1, idx ! 2 - start, idx ! 3]
           else item original idx)\<rparr>"

text \<open>
  The block \<open>cache_update\<close> of \<open>forward_layer\<close> when a cache is given: it returns the new
  \<open>k\<close>, \<open>v\<close>, \<open>q_segment_ids\<close>, \<open>k_segment_ids\<close> and \<open>q_offset\<close>. Reading \<open>cache.k[idx]\<close>
  beyond the list raises IndexError. \<open>jax.vmap\<close> maps over the rows of the cache, of the
  chunk and of the lengths together and rejects arguments whose numbers of rows differ;
  like the other shape mismatches this is no branch of the model, so \<open>vmap_update\<close> is
  meant where the three have the same number of rows.
\<close>

definition cache_update ::
  "backend \<Rightarrow> KVCache \<Rightarrow> nat \<Rightarrow> real array \<Rightarrow> real array \<Rightarrow> int array
     \<Rightarrow> error + (real array \<times> real array \<times> int array \<times> int array \<times> int array)" where
  "cache_update be cache idx k v segment_ids =
     (if \<not> (idx < length (cache_k cache) \<and> idx < length (cache_v cache)) then Inl IndexError
      else
        let ck = cache_k cache ! idx; cv = cache_v cache ! idx;
            k = vmap_update ck (amap (to_bfloat16 be) k) (lengths cache);
            v = vmap_update cv (amap (to_bfloat16 be) v) (lengths cache);
            q_segment_ids = nonzero segment_ids;
            time_indices = expand_dims 0 (arange (shape v ! time_axis));
            incremental_positions = sum_last (nonzero segment_ids);
            k_segment_ids =
              bop (\<lambda>t b. if t < b then 1 else 0) time_indices
                (expand_dims 1 (add (lengths cache) incremental_positions));
            k = mul k (amap real_of_int (expand_dims 3 (expand_dims 1 k_segment_ids)));
            v = mul v (amap real_of_int (expand_dims 3 (expand_dims 1 k_segment_ids)));
            q_offset = lengths cache
        in Inr (k, v, q_segment_ids, k_segment_ids, q_offset))"

definition forward_layer ::
  "backend \<Rightarrow> real array \<Rightarrow> int array \<Rightarrow> Layer \<Rightarrow> real array \<Rightarrow> real array \<Rightarrow> nat \<Rightarrow> Config
     \<Rightarrow> KVCache option \<Rightarrow> error + (real array \<times> real array \<times> real array)" where
  "forward_layer be x segment_ids layer sin_t cos_t idx cfg cache =
     (let attn_in = rms_norm x (gamma1 layer);
          q = einsum_btd_dhq_bhtq attn_in (layer_q layer);
          k = einsum_btd_dhq_bhtq attn_in (layer_k layer);
          v = einsum_btd_dhq_bhtq attn_in (layer_v layer)
      in (case apply_rotary_embedding q sin_t cos_t of
            Inl e \<Rightarrow> Inl e
          | Inr q \<Rightarrow>
         (case apply_rotary_embedding k sin_t cos_t of
            Inl e \<Rightarrow> Inl e
          | Inr k \<Rightarrow>
         (case (case cache of
                  Some c \<Rightarrow> cache_update be c idx k v segment_ids
                | None \<Rightarrow> Inr (k, v, segment_ids, segment_ids, full [shape x ! 0] 0)) of
            Inl e \<Rightarrow> Inl e
          | Inr (k, v, q_segment_ids, k_segment_ids, q_offset) \<Rightarrow>
         (case (if use_attn_kernel cfg then
                  (if cache \<noteq> None then Inl (ValueError ''Kernel is only for training.'')
                   else attention_kernel be q k v q_segment_ids k_segment_ids cfg)
                else attention be q k v q_segment_ids k_segment_ids q_offset cfg) of
            Inl e \<Rightarrow> Inl e
          | Inr attn_out \<Rightarrow>
              (let attn_out = einsum_bhtq_hqd_btd attn_out (proj layer);
                   x = add x attn_out;
                   ff_in = rms_norm x (gamma2 layer);
                   ff_out = einsum_btd_df_btf ff_in (w1 layer);
                   ff_out = amap gelu ff_out;
                   ff_out = einsum_btd_df_btf ff_out (w2 layer);
                   x = add x ff_out
               in Inr (x, k, v)))))))"

section \<open>Forward pass\<close>

definition clamp_index :: "int \<Rightarrow> nat \<Rightarrow> nat" where
  \<comment> \<open>an array index computed at run time: a negative one counts from the end, and the
      result is clamped into the axis\<close>
  "clamp_index i n = clamp_start i n 1"

definition take_rows :: "real array \<Rightarrow> int array \<Rightarrow> real array" where
  \<comment> \<open>\<open>weights.embedding[x, :]\<close>\<close>
  "take_rows table x =
     \<lparr>shape = shape x @ [shape table ! 1],
      item = (\<lambda>idx. item table [clamp_index (item x [idx ! 0, idx ! 1]) (shape table ! 0), idx ! 2])\<rparr>"

text \<open>
  The loop over \<open>enumerate(weights.layers)\<close>. The assignments \<open>cache.k[idx] = k\<close> and
  \<open>cache.v[idx] = v\<close> change the lists of the caller's cache object in place, so the loop
  returns the state of that object too, also when a layer raises.
\<close>

fun forward_layers ::
  "backend \<Rightarrow> int array \<Rightarrow> real array \<Rightarrow> real array \<Rightarrow> Config \<Rightarrow> nat \<Rightarrow> Layer list
     \<Rightarrow> real array \<Rightarrow> KVCache option \<Rightarrow> (error + real array) \<times> KVCache option" where
  "forward_layers be segment_ids sin_t cos_t cfg idx [] x cache = (Inr x, cache)"
| "forward_layers be segment_ids sin_t cos_t cfg idx (layer # rest) x cache =
     (case forward_layer be x segment_ids layer sin_t cos_t idx cfg cache of
        Inl e \<Rightarrow> (Inl e, cache)
      | Inr (x', k, v) \<Rightarrow>
          forward_layers be segment_ids sin_t cos_t cfg (Suc idx) rest x'
            (case cache of
               None \<Rightarrow> None
             | Some c \<Rightarrow>
                 Some (c\<lparr>cache_k := (cache_k c)[idx := k], cache_v := (cache_v c)[idx := v]\<rparr>)))"

text \<open>
  \<open>forward\<close> returns the logits and, when a cache is given, the new cache object made by
  \<open>dataclasses.replace\<close>; the second component is the caller's cache object after the call.
  The new lengths are an \<open>int32\<close> sum, which wraps around.
  Slicing the rotary tables raises (a TypeError) when the chunk is longer than the tables.
\<close>

definition forward ::
  "backend \<Rightarrow> int array \<Rightarrow> int array \<Rightarrow> Weights \<Rightarrow> Config \<Rightarrow> KVCache option
     \<Rightarrow> (error + (real array \<times> KVCache option)) \<times> KVCache option" where
  "forward be x segment_ids weights cfg cache =
     (let x = take_rows (embedding weights) x;
          batch = shape x ! 0; seq_len = shape x ! 1;
          (sin_t, cos_t) = generate_fixed_pos_embedding (key_dim cfg) (max_seq_len cfg) 1 10000;
          start_indices = (case cache of Some c \<Rightarrow> lengths c | None \<Rightarrow> full [batch] 0)
      in if max_seq_len cfg < seq_len then (Inl TypeError, cache)
         else
           let sin_t = slices_at sin_t start_indices seq_len;
               cos_t = slices_at cos_t start_indices seq_len
           in (case forward_layers be segment_ids sin_t cos_t cfg 0 (layers weights) x cache of
                 (Inl e, cache) \<Rightarrow> (Inl e, cache)
               | (Inr x, cache) \<Rightarrow>
                   (let logits = einsum_btd_df_btf x (vocab_proj weights)
                    in (case cache of
                          Some c \<Rightarrow>
                            (Inr (logits,
                               Some (c\<lparr>lengths :=
                                 amap int32 (add (lengths c) (sum_last (nonzero segment_ids)))\<rparr>)),
                             cache)
                        | None \<Rightarrow> (Inr (logits, None), cache)))))"

section \<open>Inference\<close>

text \<open>
  \<open>prepare_chunk\<close>. \<open>jnp.pad\<close> fills with zeros, whatever \<open>pad_id\<close> is, and raises a
  ValueError at a negative pad width.
\<close>

definition prepare_chunk :: "int array \<Rightarrow> nat \<Rightarrow> int \<Rightarrow> error + (int array \<times> int array)" where
  "prepare_chunk chunk pad_to pad_id =
     (let n = shape chunk ! 0
      in if pad_to < n then Inl (ValueError ''index can't contain negative values'')
         else
           let padded = \<lparr>shape = [pad_to], item = (\<lambda>idx. if idx ! 0 < n then item chunk idx else 0)\<rparr>;
               chunk = expand_dims 0 padded;
               segment_ids = amap (\<lambda>c. if c \<noteq> pad_id then 1 else 0) chunk
           in Inr (chunk, segment_ids))"

text \<open>
  \<open>jnp.argmax(x, -1)\<close> returns the first position of the largest entry, and raises on
  an empty axis.
\<close>

fun argmax_upto :: "(nat \<Rightarrow> real) \<Rightarrow> nat \<Rightarrow> nat" where
  "argmax_upto f 0 = 0"
| "argmax_upto f (Suc n) = (let b = argmax_upto f n in if f b < f n then n else b)"

definition argmax_last :: "real array \<Rightarrow> error + int array" where
  "argmax_last x =
     (if last (shape x) = 0 then Inl (ValueError ''attempt to get argmax of an empty sequence'')
      else Inr \<lparr>shape = butlast (shape x),
                item = (\<lambda>idx. int (argmax_upto (\<lambda>j. item x (idx @ [j])) (last (shape x))))\<rparr>)"

definition categorical :: "backend \<Rightarrow> nat \<Rightarrow> real array \<Rightarrow> error + int array" where
  \<comment> \<open>\<open>jax.random.categorical(jax.random.PRNGKey(seed), logits, axis=-1)\<close>: the library
      adds Gumbel noise to its argument and returns the arg-max\<close>
  "categorical be seed logits = argmax_last (add (gumbel be seed (shape logits)) logits)"

definition sample_next_token :: "backend \<Rightarrow> real array \<Rightarrow> real \<Rightarrow> bool \<Rightarrow> error + int array" where
  "sample_next_token be logits temperature greedy =
     (if greedy then argmax_last logits
      else if temperature = 0 then Inl NotFinite
      else
        let logits = true_divide logits (scalar temperature);
            probs = softmax logits
        in categorical be 0 probs)"

text \<open>
  \<open>math.ceil(math.log2(n))\<close> for a positive integer \<open>n\<close>; \<open>math.log2(0)\<close> raises a
  ValueError.
\<close>

function ceil_log2 :: "nat \<Rightarrow> nat" where
  "ceil_log2 n = (if n \<le> 1 then 0 else Suc (ceil_log2 ((n + 1) div 2)))"
  by pat_completeness auto
termination
  by (relation "measure id") auto

declare ceil_log2.simps [simp del]

definition static_index :: "int \<Rightarrow> nat \<Rightarrow> error + nat" where
  \<comment> \<open>an index that is a Python integer: negative counts from the end, and out of range
      raises IndexError\<close>
  "static_index i n =
     (let j = (if i < 0 then i + int n else i)
      in if 0 \<le> j \<and> j < int n then Inr (nat j) else Inl IndexError)"

definition row_at :: "real array \<Rightarrow> nat \<Rightarrow> nat \<Rightarrow> real array" where
  \<comment> \<open>\<open>logits[b, t, :]\<close>\<close>
  "row_at logits b t = \<lparr>shape = [shape logits ! 2], item = (\<lambda>idx. item logits [b, t, idx ! 0])\<rparr>"

definition reset_length :: "int array \<Rightarrow> int \<Rightarrow> int array" where
  \<comment> \<open>\<open>jax.lax.dynamic_update_index_in_dim(lengths, 0, batch_idx, axis=0)\<close>\<close>
  "reset_length ls batch_idx =
     \<lparr>shape = shape ls,
      item = (\<lambda>idx. if idx ! 0 = clamp_index batch_idx (shape ls ! 0) then 0 else item ls idx)\<rparr>"

text \<open>
  The loop of \<open>sample_from_prompt\<close>: one call of \<open>forward\<close> on a chunk of length 1 for
  each generated token. \<open>forward\<close> runs under \<open>jax.jit\<close>, which works on a copy of the
  cache, so only the returned cache is kept. (Given a cache, \<open>forward\<close> returns one: the
  branch for a result without a cache is never taken.)
\<close>

fun decode_steps ::
  "backend \<Rightarrow> Weights \<Rightarrow> Config \<Rightarrow> nat \<Rightarrow> bool \<Rightarrow> nat \<Rightarrow> real array \<Rightarrow> KVCache \<Rightarrow> int list
     \<Rightarrow> error + (int list \<times> KVCache)" where
  "decode_steps be weights cfg b greedy 0 next_token_logit cache tokens = Inr (tokens, cache)"
| "decode_steps be weights cfg b greedy (Suc n) next_token_logit cache tokens =
     (case sample_next_token be next_token_logit 1 greedy of
        Inl e \<Rightarrow> Inl e
      | Inr tok \<Rightarrow>
     (let next_token = expand_dims 0 tok
      in (case prepare_chunk next_token 1 0 of
            Inl e \<Rightarrow> Inl e
          | Inr (prompt, prompt_segment_ids) \<Rightarrow>
         (case fst (forward be prompt prompt_segment_ids weights cfg (Some cache)) of
            Inl e \<Rightarrow> Inl e
          | Inr (logits, None) \<Rightarrow> Inl TypeError
          | Inr (logits, Some cache') \<Rightarrow>
              decode_steps be weights cfg b greedy n (row_at logits b 0) cache'
                (tokens @ [item next_token [0]])))))"

definition sample_from_prompt ::
  "backend \<Rightarrow> int array \<Rightarrow> Weights \<Rightarrow> KVCache \<Rightarrow> Config \<Rightarrow> int \<Rightarrow> nat \<Rightarrow> bool
     \<Rightarrow> error + (int list \<times> KVCache)" where
  "sample_from_prompt be tokens weights cache cfg batch_idx num_steps greedy =
     (let n = shape tokens ! 0
      in if \<not> n \<le> max_seq_len cfg then Inl AssertionError
         else if n = 0 then Inl (ValueError ''math domain error'')
         else
           let pad_to = 2 ^ ceil_log2 n
           in (case prepare_chunk tokens pad_to 0 of
                 Inl e \<Rightarrow> Inl e
               | Inr (prompt, prompt_segment_ids) \<Rightarrow>
              (let cache = cache\<lparr>lengths := reset_length (lengths cache) batch_idx\<rparr>
               in (case fst (forward be prompt prompt_segment_ids weights cfg (Some cache)) of
                     Inl e \<Rightarrow> Inl e
                   | Inr (logits, None) \<Rightarrow> Inl TypeError
                   | Inr (logits, Some cache) \<Rightarrow>
                  (case static_index batch_idx (shape logits ! 0) of
                     Inl e \<Rightarrow> Inl e
                   | Inr b \<Rightarrow>
                  (case static_index batch_idx (shape (lengths cache) ! 0) of
                     Inl e \<Rightarrow> Inl e
                   | Inr bl \<Rightarrow>
                       (let next_token_logit =
                              row_at logits b
                                (clamp_index (item (lengths cache) [bl] - 1) (shape logits ! 1))
                        in decode_steps be weights cfg b greedy num_steps next_token_logit
                             cache [])))))))"

section \<open>Example inputs\<close>

text \<open>The configuration \<open>test_cfg\<close> of the source.\<close>

definition test_cfg :: Config where
  "test_cfg =
     \<lparr>d_model = 4 * 64, ffw_multiplier = 4, query_heads = 4, key_heads = 4, num_layers = 1,
      key_dim = 64, vocab_size = 1000, max_seq_len = 1024, causal = True,
      use_attn_kernel = True, max_lr = 3 / 10 ^ 4, min_lr = 1 / 10 ^ 5, warmup_steps = 50,
      total_steps = 10000\<rparr>"

text \<open>
  A backend for the examples: numbers that need no rounding, a kernel that returns its
  queries, and no noise.
\<close>

definition example_backend :: backend where
  "example_backend =
     \<lparr>to_bfloat16 = (\<lambda>a. a), to_float32 = (\<lambda>a. a),
      flash_attention = (\<lambda>q k v q_segment_ids kv_segment_ids scale. q),
      gumbel = (\<lambda>seed s. full s 0)\<rparr>"

text \<open>
  Weights of the shapes that \<open>Layer\<close> and \<open>Weights\<close> construct for a configuration, with
  every projection entry equal to \<open>a\<close> in place of the random initial values, and the
  normalisation gains equal to 1.
\<close>

definition const_layer :: "Config \<Rightarrow> real \<Rightarrow> Layer" where
  "const_layer cfg a =
     \<lparr>layer_q = full [d_model cfg, query_heads cfg, key_dim cfg] a,
      layer_k = full [d_model cfg, key_heads cfg, key_dim cfg] a,
      layer_v = full [d_model cfg, key_heads cfg, key_dim cfg] a,
      proj = full [query_heads cfg, key_dim cfg, d_model cfg] a,
      w1 = full [d_model cfg, d_model cfg * ffw_multiplier cfg] a,
      w2 = full [d_model cfg * ffw_multiplier cfg, d_model cfg] a,
      gamma1 = full [d_model cfg] 1,
      gamma2 = full [d_model cfg] 1\<rparr>"

definition const_weights :: "Config \<Rightarrow> real \<Rightarrow> Weights" where
  "const_weights cfg a =
     \<lparr>layers = replicate (num_layers cfg) (const_layer cfg a),
      embedding = full [vocab_size cfg, d_model cfg] a,
      vocab_proj = full [d_model cfg, vocab_size cfg] a\<rparr>"

text \<open>A small configuration on the reference attention path.\<close>

definition tiny_cfg :: Config where
  "tiny_cfg =
     \<lparr>d_model = 2, ffw_multiplier = 1, query_heads = 1, key_heads = 1, num_layers = 2,
      key_dim = 2, vocab_size = 3, max_seq_len = 4, causal = True,
      use_attn_kernel = False, max_lr = 3 / 10 ^ 4, min_lr = 1 / 10 ^ 5, warmup_steps = 50,
      total_steps = 10000\<rparr>"

text \<open>
  The Gumbel noise that \<open>jax.random.categorical\<close> adds for the key \<open>PRNGKey(0)\<close> and two
  entries, to four decimals. The threefry generator gives the random bits \<open>0x375f238f\<close> and
  \<open>0xcddb151d\<close>, hence the uniform numbers 0.216295 and 0.804124 and the noise
  \<open>- log (- log u)\<close> of -0.4260 and 1.5233. With the option \<open>jax_threefry_partitionable\<close>,
  the default of later releases of the library, the bits are \<open>0xf29a4fa7\<close> and
  \<open>0xfa843692\<close>, the uniform numbers 0.947667 and 0.978580, and the noise 2.9234 and 3.8326.
\<close>

definition threefry_backend :: backend where
  "threefry_backend =
     example_backend\<lparr>gumbel :=
       (\<lambda>seed s. \<lparr>shape = s, item = (\<lambda>idx. if idx = [0] then - 0.4260 else 1.5233)\<rparr>)\<rparr>"

definition threefry_partitionable_backend :: backend where
  "threefry_partitionable_backend =
     example_backend\<lparr>gumbel :=
       (\<lambda>seed s. \<lparr>shape = s, item = (\<lambda>idx. if idx = [0] then 2.9234 else 3.8326)\<rparr>)\<rparr>"

section \<open>Facts about arrays\<close>

lemma bpos_less [simp]: "i < d \<Longrightarrow> bpos d i = i"
  by (auto simp: bpos_def)

lemma bpos_one [simp]: "bpos (Suc 0) i = 0"
  by (simp add: bpos_def)

lemma bindex_Nil [simp]: "bindex [] idx = []"
  by (simp add: bindex_def)

lemma bindex_Cons [simp]:
  "length idx = length s \<Longrightarrow> bindex (d # s) (i # idx) = bpos d i # bindex s idx"
  by (simp add: bindex_def)

lemma bindex_drop [simp]:
  "length s \<le> length idx \<Longrightarrow> bindex s (i # idx) = bindex s idx"
  by (simp add: bindex_def Suc_diff_le)

lemma shape_bop [simp]: "shape (bop f x y) = broadcast_shapes (shape x) (shape y)"
  by (simp add: bop_def)

lemma item_bop [simp]:
  "item (bop f x y) idx = f (item x (bindex (shape x) idx)) (item y (bindex (shape y) idx))"
  by (simp add: bop_def)

lemma broadcast_shapes_Nil [simp]:
  "broadcast_shapes [] s = s" "broadcast_shapes s [] = s"
  by (cases "rev s"; simp add: broadcast_shapes_def)+

lemma bdim_same [simp]: "bdim m m = m"
  by (simp add: bdim_def)

lemma bdim_one_right [simp]: "bdim m (Suc 0) = m"
  by (simp add: bdim_def)

lemma bdim_one_left [simp]: "bdim (Suc 0) n = n"
  by (simp add: bdim_def)

lemma broadcast_rev_snoc:
  "length ms = length ns \<Longrightarrow>
   broadcast_rev (ms @ [m]) (ns @ [n]) = broadcast_rev ms ns @ [bdim m n]"
  by (induction ms ns rule: list_induct2) simp_all

lemma broadcast_shapes_Cons [simp]:
  "length ms = length ns \<Longrightarrow>
   broadcast_shapes (m # ms) (n # ns) = bdim m n # broadcast_shapes ms ns"
  by (simp add: broadcast_shapes_def broadcast_rev_snoc)

lemma shape_amap [simp]: "shape (amap f x) = shape x"
  by (simp add: amap_def)

lemma item_amap [simp]: "item (amap f x) idx = f (item x idx)"
  by (simp add: amap_def)

lemma shape_full [simp]: "shape (full s c) = s"
  by (simp add: full_def)

lemma item_full [simp]: "item (full s c) idx = c"
  by (simp add: full_def)

lemma shape_scalar [simp]: "shape (scalar c) = []"
  by (simp add: scalar_def)

lemma item_scalar [simp]: "item (scalar c) idx = c"
  by (simp add: scalar_def)

section \<open>The learning-rate schedule (claim C7)\<close>

lemma lr_at_warmup_steps:
  "w < t \<Longrightarrow> get_lr_with_cosine_decay_and_warmup w t mx mn w = Inr mx"
  by (simp add: get_lr_with_cosine_decay_and_warmup_def cosine_decay_def field_simps)

lemma lr_increasing:
  assumes "0 < w" "w < t" "0 \<le> mx" "0 \<le> s" "s \<le> s'" "s' \<le> w"
  shows "\<exists>a b. get_lr_with_cosine_decay_and_warmup s t mx mn w = Inr a \<and>
     get_lr_with_cosine_decay_and_warmup s' t mx mn w = Inr b \<and> a \<le> b"
proof (cases "s' < w")
  case True
  from assms have "mx * (real_of_int s / real_of_int w) \<le> mx * (real_of_int s' / real_of_int w)"
    by (intro mult_left_mono divide_right_mono) auto
  with assms True show ?thesis
    by (simp add: get_lr_with_cosine_decay_and_warmup_def warmup_def)
next
  case False
  with assms have e: "s' = w" by simp
  show ?thesis
  proof (cases "s < w")
    case True
    with assms have "real_of_int s / real_of_int w \<le> 1" by simp
    with assms have "mx * (real_of_int s / real_of_int w) \<le> mx * 1"
      by (intro mult_left_mono) auto
    then have le: "mx * (real_of_int s / real_of_int w) \<le> mx" by simp
    from assms True
    have a: "get_lr_with_cosine_decay_and_warmup s t mx mn w =
        Inr (mx * (real_of_int s / real_of_int w))"
      by (simp add: get_lr_with_cosine_decay_and_warmup_def warmup_def)
    from assms e have b: "get_lr_with_cosine_decay_and_warmup s' t mx mn w = Inr mx"
      by (simp add: lr_at_warmup_steps)
    from a b le show ?thesis by blast
  next
    case False
    with assms e have "s = w" by simp
    with assms e show ?thesis
      by (simp add: lr_at_warmup_steps)
  qed
qed

lemma lr_decreasing:
  assumes "w < t" "mn \<le> mx" "w \<le> s" "s \<le> s'" "s' \<le> t"
  shows "\<exists>a b. get_lr_with_cosine_decay_and_warmup s t mx mn w = Inr a \<and>
     get_lr_with_cosine_decay_and_warmup s' t mx mn w = Inr b \<and> b \<le> a"
proof -
  define p where "p = real_of_int (s - w) / real_of_int (t - w)"
  define p' where "p' = real_of_int (s' - w) / real_of_int (t - w)"
  from assms have p: "0 \<le> p" "p \<le> p'" "p' \<le> 1"
    by (simp_all add: p_def p'_def divide_right_mono)
  then have "0 \<le> pi * p" "pi * p \<le> pi * p'" "pi * p' \<le> pi"
    by (simp_all add: mult_left_mono)
  then have "cos (pi * p') \<le> cos (pi * p)"
    by (intro cos_monotone_0_pi_le) auto
  then have "(mx - mn) * (1 + cos (pi * p')) \<le> (mx - mn) * (1 + cos (pi * p))"
    using assms by (intro mult_left_mono) auto
  with assms show ?thesis
    by (simp add: get_lr_with_cosine_decay_and_warmup_def cosine_decay_def p_def p'_def Let_def)
qed

text \<open>
  Claim C7 as stated, for every schedule, fails: with no warmup (\<open>warmup_steps = 0\<close>)
  step 0 takes the cosine branch and the rate there is \<open>max_lr\<close>, not 0.
\<close>

theorem lr_no_warmup_counterexample:
  "get_lr_with_cosine_decay_and_warmup 0 10 1 0 0 = Inr 1 \<and>
   get_lr_with_cosine_decay_and_warmup 0 10 1 0 0 \<noteq> Inr 0"
  by (simp add: get_lr_with_cosine_decay_and_warmup_def cosine_decay_def)

text \<open>
  Claim C7, amended: when \<open>0 < warmup_steps < total_steps\<close>, \<open>0 \<le> max_lr\<close> and
  \<open>min_lr \<le> max_lr\<close>, the rate is 0 at step 0, \<open>max_lr\<close> at step \<open>warmup_steps\<close> and
  \<open>min_lr\<close> at step \<open>total_steps\<close>; it never decreases from step 0 to step \<open>warmup_steps\<close>
  and never increases from step \<open>warmup_steps\<close> to step \<open>total_steps\<close>.
\<close>

theorem lr_schedule:
  assumes "0 < w" and "w < t" and "0 \<le> mx" and "mn \<le> mx"
  shows "get_lr_with_cosine_decay_and_warmup 0 t mx mn w = Inr 0 \<and>
    get_lr_with_cosine_decay_and_warmup w t mx mn w = Inr mx \<and>
    get_lr_with_cosine_decay_and_warmup t t mx mn w = Inr mn \<and>
    (\<forall>s s'. 0 \<le> s \<and> s \<le> s' \<and> s' \<le> w \<longrightarrow>
       (\<exists>a b. get_lr_with_cosine_decay_and_warmup s t mx mn w = Inr a \<and>
          get_lr_with_cosine_decay_and_warmup s' t mx mn w = Inr b \<and> a \<le> b)) \<and>
    (\<forall>s s'. w \<le> s \<and> s \<le> s' \<and> s' \<le> t \<longrightarrow>
       (\<exists>a b. get_lr_with_cosine_decay_and_warmup s t mx mn w = Inr a \<and>
          get_lr_with_cosine_decay_and_warmup s' t mx mn w = Inr b \<and> b \<le> a))"
proof (intro conjI allI impI)
  show "get_lr_with_cosine_decay_and_warmup 0 t mx mn w = Inr 0"
    using assms by (simp add: get_lr_with_cosine_decay_and_warmup_def warmup_def)
  show "get_lr_with_cosine_decay_and_warmup w t mx mn w = Inr mx"
    using assms by (simp add: lr_at_warmup_steps)
  show "get_lr_with_cosine_decay_and_warmup t t mx mn w = Inr mn"
    using assms by (simp add: get_lr_with_cosine_decay_and_warmup_def cosine_decay_def)
next
  fix s s' assume "0 \<le> s \<and> s \<le> s' \<and> s' \<le> w"
  with assms show "\<exists>a b. get_lr_with_cosine_decay_and_warmup s t mx mn w = Inr a \<and>
          get_lr_with_cosine_decay_and_warmup s' t mx mn w = Inr b \<and> a \<le> b"
    by (intro lr_increasing) auto
next
  fix s s' assume "w \<le> s \<and> s \<le> s' \<and> s' \<le> t"
  with assms show "\<exists>a b. get_lr_with_cosine_decay_and_warmup s t mx mn w = Inr a \<and>
          get_lr_with_cosine_decay_and_warmup s' t mx mn w = Inr b \<and> b \<le> a"
    by (intro lr_decreasing) auto
qed

text \<open>The schedule of the default configuration: 50 warmup steps of 10000.\<close>

theorem lr_schedule_witness:
  "get_lr_with_cosine_decay_and_warmup 0 10000 (3 / 10 ^ 4) (1 / 10 ^ 5) 50 = Inr 0 \<and>
   get_lr_with_cosine_decay_and_warmup 50 10000 (3 / 10 ^ 4) (1 / 10 ^ 5) 50 = Inr (3 / 10 ^ 4) \<and>
   get_lr_with_cosine_decay_and_warmup 10000 10000 (3 / 10 ^ 4) (1 / 10 ^ 5) 50 = Inr (1 / 10 ^ 5) \<and>
   (\<exists>a b. get_lr_with_cosine_decay_and_warmup 10 10000 (3 / 10 ^ 4) (1 / 10 ^ 5) 50 = Inr a \<and>
      get_lr_with_cosine_decay_and_warmup 20 10000 (3 / 10 ^ 4) (1 / 10 ^ 5) 50 = Inr b \<and> a \<le> b) \<and>
   (\<exists>a b. get_lr_with_cosine_decay_and_warmup 100 10000 (3 / 10 ^ 4) (1 / 10 ^ 5) 50 = Inr a \<and>
      get_lr_with_cosine_decay_and_warmup 200 10000 (3 / 10 ^ 4) (1 / 10 ^ 5) 50 = Inr b \<and> b \<le> a)"
proof -
  have h: "(0::int) < 50" "(50::int) < 10000" "(0::real) \<le> 3 / 10 ^ 4"
    "(1::real) / 10 ^ 5 \<le> 3 / 10 ^ 4"
    by simp_all
  note r = lr_schedule [OF h]
  from r have inc: "\<And>s s'. 0 \<le> s \<and> s \<le> s' \<and> s' \<le> 50 \<Longrightarrow>
       (\<exists>a b. get_lr_with_cosine_decay_and_warmup s 10000 (3 / 10 ^ 4) (1 / 10 ^ 5) 50 = Inr a \<and>
          get_lr_with_cosine_decay_and_warmup s' 10000 (3 / 10 ^ 4) (1 / 10 ^ 5) 50 = Inr b \<and> a \<le> b)"
    by blast
  from r have dec: "\<And>s s'. 50 \<le> s \<and> s \<le> s' \<and> s' \<le> 10000 \<Longrightarrow>
       (\<exists>a b. get_lr_with_cosine_decay_and_warmup s 10000 (3 / 10 ^ 4) (1 / 10 ^ 5) 50 = Inr a \<and>
          get_lr_with_cosine_decay_and_warmup s' 10000 (3 / 10 ^ 4) (1 / 10 ^ 5) 50 = Inr b \<and> b \<le> a)"
    by blast
  have i: "(0::int) \<le> 10 \<and> (10::int) \<le> 20 \<and> (20::int) \<le> 50" by simp
  have d: "(50::int) \<le> 100 \<and> (100::int) \<le> 200 \<and> (200::int) \<le> 10000" by simp
  from r inc [OF i] dec [OF d] show ?thesis by blast
qed

section \<open>The rotary tables (claim C6)\<close>

lemma shape_timescale: "shape (timescale f mn mx) = [(f + 1) div 2]"
  by (simp add: timescale_def mul_def fraction_def true_divide_def arange_step2_def)

lemma item_timescale:
  "j < (f + 1) div 2 \<Longrightarrow> item (timescale f 1 10000) [j] = 10000 powr (real (2 * j) / real f)"
  by (simp add: timescale_def mul_def fraction_def true_divide_def arange_step2_def)

lemma shape_generate_fixed_pos_embedding:
  "shape (fst (generate_fixed_pos_embedding f n mn mx)) = [n, (f + 1) div 2]"
  "shape (snd (generate_fixed_pos_embedding f n mn mx)) = [n, (f + 1) div 2]"
  by (simp_all add: generate_fixed_pos_embedding_def Let_def einsum_i_j_def arange_def
      true_divide_def shape_timescale)

lemma item_generate_fixed_pos_embedding:
  assumes "j < (f + 1) div 2"
  shows "item (fst (generate_fixed_pos_embedding f n mn mx)) [i, j] =
      sin (real i / item (timescale f mn mx) [j])"
    and "item (snd (generate_fixed_pos_embedding f n mn mx)) [i, j] =
      cos (real i / item (timescale f mn mx) [j])"
  using assms
  by (simp_all add: generate_fixed_pos_embedding_def Let_def einsum_i_j_def arange_def
      true_divide_def shape_timescale)

lemma timescale_step:
  assumes "Suc j < (f + 1) div 2"
  shows "item (timescale f 1 10000) [Suc j] =
    item (timescale f 1 10000) [j] * 10000 powr (2 / real f)"
proof -
  have "real (2 * Suc j) / real f = real (2 * j) / real f + 2 / real f"
    by (simp add: add_divide_distrib)
  then have "(10000::real) powr (real (2 * Suc j) / real f) =
      10000 powr (real (2 * j) / real f) * 10000 powr (2 / real f)"
    by (simp only: powr_add)
  with assms show ?thesis by (simp add: item_timescale)
qed

lemma timescale_below_max:
  assumes "j < (f + 1) div 2"
  shows "item (timescale f 1 10000) [j] < 10000"
proof -
  from assms have "2 * j < f" by arith
  then have "real (2 * j) / real f < 1" by simp
  then have "(10000::real) powr (real (2 * j) / real f) < 10000 powr 1"
    by (intro powr_less_mono) auto
  with assms show ?thesis by (simp add: item_timescale)
qed

lemma timescale_next_is_max:
  assumes "even f" and "0 < f"
  shows "item (timescale f 1 10000) [f div 2 - 1] * 10000 powr (2 / real f) = 10000"
proof -
  from assms obtain k where k: "f = 2 * k" by (elim evenE)
  with assms obtain m where "k = Suc m" by (cases k) auto
  with k have m: "f = 2 * Suc m" by simp
  then have j: "f div 2 - 1 = m" "m < (f + 1) div 2" by auto
  have "real (2 * m) / real f + 2 / real f = (real (2 * m) + 2) / real f"
    by (simp add: add_divide_distrib)
  also have "\<dots> = 1" using m by simp
  finally have "real (2 * m) / real f + 2 / real f = 1" .
  then have "(10000::real) powr (real (2 * m) / real f) * 10000 powr (2 / real f) = 10000 powr 1"
    by (simp only: powr_add [symmetric])
  with j show ?thesis by (simp add: item_timescale)
qed

text \<open>
  Claim C6 as stated, with timescales running from 1.0 to 10000.0, fails: with four
  features the two timescales are 1 and 100, and no timescale is 10000.
\<close>

theorem timescale_excludes_max_counterexample:
  "shape (timescale 4 1 10000) = [2] \<and> item (timescale 4 1 10000) [0] = 1 \<and>
   item (timescale 4 1 10000) [1] = 100 \<and> item (timescale 4 1 10000) [1] \<noteq> 10000"
proof -
  have "(10000::real) = 100 powr 2" by simp
  then have "(10000::real) powr (2 / 4) = (100 powr 2) powr (2 / 4)" by simp
  also have "\<dots> = 100 powr (2 * (2 / 4))" by (rule powr_powr)
  finally have "(10000::real) powr (2 / 4) = 100" by simp
  then show ?thesis
    using item_timescale [of 1 4] item_timescale [of 0 4] by (simp add: shape_timescale)
qed

text \<open>
  Claim C6, amended: the rotary table generator, given \<open>feature_dim\<close> and \<open>max_length\<close>,
  returns sin and cos tables each of shape \<open>[max_length, (feature_dim + 1) div 2]\<close>, which
  is \<open>[max_length, feature_dim / 2]\<close> for an even \<open>feature_dim\<close>; entry \<open>[i, j]\<close> is the
  sine (cosine) of \<open>i\<close> divided by the \<open>j\<close>-th timescale; the timescales form a geometric
  progression that starts at 1.0, has the ratio \<open>10000 ^ (2 / feature_dim)\<close> and stays
  below 10000.0, which is not a timescale: for an even \<open>feature_dim\<close> it would be the
  element after the last.
\<close>

theorem rotary_tables:
  "shape (fst (generate_fixed_pos_embedding f n 1 10000)) = [n, (f + 1) div 2] \<and>
   shape (snd (generate_fixed_pos_embedding f n 1 10000)) = [n, (f + 1) div 2] \<and>
   (even f \<longrightarrow> (f + 1) div 2 = f div 2) \<and>
   (\<forall>i j. i < n \<and> j < (f + 1) div 2 \<longrightarrow>
      item (fst (generate_fixed_pos_embedding f n 1 10000)) [i, j] =
        sin (real i / item (timescale f 1 10000) [j]) \<and>
      item (snd (generate_fixed_pos_embedding f n 1 10000)) [i, j] =
        cos (real i / item (timescale f 1 10000) [j])) \<and>
   shape (timescale f 1 10000) = [(f + 1) div 2] \<and>
   (0 < f \<longrightarrow> item (timescale f 1 10000) [0] = 1) \<and>
   (\<forall>j. Suc j < (f + 1) div 2 \<longrightarrow>
      item (timescale f 1 10000) [Suc j] =
        item (timescale f 1 10000) [j] * 10000 powr (2 / real f)) \<and>
   (\<forall>j. j < (f + 1) div 2 \<longrightarrow> item (timescale f 1 10000) [j] < 10000) \<and>
   (even f \<and> 0 < f \<longrightarrow>
      item (timescale f 1 10000) [f div 2 - 1] * 10000 powr (2 / real f) = 10000)"
proof (intro conjI allI impI)
  show "0 < f \<Longrightarrow> item (timescale f 1 10000) [0] = 1"
    using item_timescale [of 0 f] by simp
  show "even f \<Longrightarrow> (f + 1) div 2 = f div 2"
    by auto
  show "even f \<and> 0 < f \<Longrightarrow>
      item (timescale f 1 10000) [f div 2 - 1] * 10000 powr (2 / real f) = 10000"
    by (elim conjE, rule timescale_next_is_max)
qed (simp_all add: shape_generate_fixed_pos_embedding item_generate_fixed_pos_embedding
    shape_timescale timescale_step timescale_below_max timescale_next_is_max)

text \<open>The tables for four features and three positions.\<close>

theorem rotary_tables_witness:
  "shape (fst (generate_fixed_pos_embedding 4 3 1 10000)) = [3, 2] \<and>
   shape (snd (generate_fixed_pos_embedding 4 3 1 10000)) = [3, 2] \<and>
   item (fst (generate_fixed_pos_embedding 4 3 1 10000)) [2, 1] =
     sin (2 / item (timescale 4 1 10000) [1]) \<and>
   item (snd (generate_fixed_pos_embedding 4 3 1 10000)) [2, 1] =
     cos (2 / item (timescale 4 1 10000) [1]) \<and>
   item (timescale 4 1 10000) [0] = 1 \<and>
   item (timescale 4 1 10000) [1] = item (timescale 4 1 10000) [0] * 10000 powr (2 / 4) \<and>
   item (timescale 4 1 10000) [1] < 10000 \<and>
   item (timescale 4 1 10000) [1] * 10000 powr (2 / 4) = 10000"
proof -
  note r = rotary_tables [of 4 3]
  have a: "(2::nat) < 3 \<and> (1::nat) < (4 + 1) div 2" by simp
  have b: "Suc 0 < (4 + 1) div 2" by simp
  have c: "even (4::nat) \<and> (0::nat) < 4" by simp
  from r have r4: "\<And>i j. i < 3 \<and> j < (4 + 1) div 2 \<Longrightarrow>
      item (fst (generate_fixed_pos_embedding 4 3 1 10000)) [i, j] =
        sin (real i / item (timescale 4 1 10000) [j]) \<and>
      item (snd (generate_fixed_pos_embedding 4 3 1 10000)) [i, j] =
        cos (real i / item (timescale 4 1 10000) [j])"
    by blast
  from r have r7: "\<And>j. Suc j < (4 + 1) div 2 \<Longrightarrow>
      item (timescale 4 1 10000) [Suc j] =
        item (timescale 4 1 10000) [j] * 10000 powr (2 / real 4)"
    by blast
  from r have r8: "\<And>j. j < (4 + 1) div 2 \<Longrightarrow> item (timescale 4 1 10000) [j] < 10000"
    by blast
  from r have r9: "even (4::nat) \<and> (0::nat) < 4 \<Longrightarrow>
      item (timescale 4 1 10000) [4 div 2 - 1] * 10000 powr (2 / real 4) = 10000"
    by blast
  from r r4 [OF a] r7 [OF b] r8 [of 1] r9 [OF c] show ?thesis by simp
qed

section \<open>The rotary rotation and its inverse (claim C9)\<close>

lemma shape_expand_dims [simp]:
  "shape (expand_dims k x) = take k (shape x) @ [1] @ drop k (shape x)"
  by (simp add: expand_dims_def)

lemma item_expand_dims [simp]:
  "item (expand_dims k x) idx = item x (take k idx @ drop (Suc k) idx)"
  by (simp add: expand_dims_def)

lemma even_halves: "even (D::nat) \<Longrightarrow> D div 2 + D div 2 = D"
  by presburger

lemma apply_rotary_embedding_shape:
  assumes "shape x = [B, H, T, D]" and "even D"
    and "shape s = [B, T, D div 2]" and "shape c = [B, T, D div 2]"
  shows "\<exists>y. apply_rotary_embedding x s c = Inr y \<and> shape y = [B, H, T, D]"
  using assms
  by (simp add: apply_rotary_embedding_def ndim_def split_last_def Let_def concatenate_last_def
      sub_def mul_def add_def even_halves)

lemma apply_rotary_embedding_item:
  assumes "shape x = [B, H, T, D]" and "even D"
    and "shape s = [B, T, D div 2]" and "shape c = [B, T, D div 2]"
    and "apply_rotary_embedding x s c = Inr y"
    and "b < B" and "h < H" and "t < T" and "d < D"
  shows "item y [b, h, t, d] =
    (if d < D div 2
     then item x [b, h, t, d] * item c [b, t, d] - item x [b, h, t, d + D div 2] * item s [b, t, d]
     else item x [b, h, t, d] * item c [b, t, d - D div 2]
        + item x [b, h, t, d - D div 2] * item s [b, t, d - D div 2])"
  using assms
  by (auto simp: apply_rotary_embedding_def ndim_def split_last_def Let_def concatenate_last_def
      sub_def mul_def add_def)

lemma rotate_back_first:
  "(x1 * cos a - x2 * sin a) * cos (- a) - (x2 * cos a + x1 * sin a) * sin (- a) = (x1::real)"
proof -
  have "cos a * cos a + sin a * sin a = 1"
    using sin_cos_squared_add2 [of a] by (simp add: power2_eq_square)
  then have "x1 * (cos a * cos a) + x1 * (sin a * sin a) = x1"
    by (metis distrib_left mult.right_neutral)
  then show ?thesis by (simp add: algebra_simps)
qed

lemma rotate_back_second:
  "(x2 * cos a + x1 * sin a) * cos (- a) + (x1 * cos a - x2 * sin a) * sin (- a) = (x2::real)"
proof -
  have "cos a * cos a + sin a * sin a = 1"
    using sin_cos_squared_add2 [of a] by (simp add: power2_eq_square)
  then have "x2 * (cos a * cos a) + x2 * (sin a * sin a) = x2"
    by (metis distrib_left mult.right_neutral)
  then show ?thesis by (simp add: algebra_simps)
qed

text \<open>
  Claim C9: for an input \<open>x\<close> of shape \<open>[B, H, T, D]\<close> with \<open>D\<close> even and angles \<open>\<theta>\<close> of
  shape \<open>[B, T, D / 2]\<close>, the rotation by the tables \<open>(sin \<theta>, cos \<theta>)\<close> followed by the
  rotation by the tables of the negated angles returns an array of the shape of \<open>x\<close> with
  the entries of \<open>x\<close>. Over the real numbers the entries are equal; in floating point
  they agree up to rounding.
\<close>

theorem rotary_round_trip:
  assumes "shape x = [B, H, T, D]" and "even D" and "shape th = [B, T, D div 2]"
  shows "\<exists>y z. apply_rotary_embedding x (amap sin th) (amap cos th) = Inr y \<and>
     apply_rotary_embedding y (amap sin (amap uminus th)) (amap cos (amap uminus th)) = Inr z \<and>
     shape z = shape x \<and>
     (\<forall>b h t d. b < B \<and> h < H \<and> t < T \<and> d < D \<longrightarrow> item z [b, h, t, d] = item x [b, h, t, d])"
proof -
  let ?s = "amap sin th" and ?c = "amap cos th"
  let ?s' = "amap sin (amap uminus th)" and ?c' = "amap cos (amap uminus th)"
  have sh: "shape ?s = [B, T, D div 2]" "shape ?c = [B, T, D div 2]"
    "shape ?s' = [B, T, D div 2]" "shape ?c' = [B, T, D div 2]"
    using assms by simp_all
  from apply_rotary_embedding_shape [OF assms(1,2) sh(1,2)]
  obtain y where y: "apply_rotary_embedding x ?s ?c = Inr y" "shape y = [B, H, T, D]"
    by blast
  from apply_rotary_embedding_shape [OF y(2) assms(2) sh(3,4)]
  obtain z where z: "apply_rotary_embedding y ?s' ?c' = Inr z" "shape z = [B, H, T, D]"
    by blast
  have "item z [b, h, t, d] = item x [b, h, t, d]"
    if r: "b < B" "h < H" "t < T" "d < D" for b h t d
  proof (cases "d < D div 2")
    case True
    with r assms have u: "d + D div 2 < D" "\<not> d + D div 2 < D div 2"
      by (auto simp: even_halves dest: even_halves)
    have "item z [b, h, t, d] =
        item y [b, h, t, d] * item ?c' [b, t, d] - item y [b, h, t, d + D div 2] * item ?s' [b, t, d]"
      using apply_rotary_embedding_item [OF y(2) assms(2) sh(3,4) z(1) r] True by simp
    also have "item y [b, h, t, d] =
        item x [b, h, t, d] * item ?c [b, t, d] - item x [b, h, t, d + D div 2] * item ?s [b, t, d]"
      using apply_rotary_embedding_item [OF assms(1,2) sh(1,2) y(1) r] True by simp
    also have "item y [b, h, t, d + D div 2] =
        item x [b, h, t, d + D div 2] * item ?c [b, t, d] + item x [b, h, t, d] * item ?s [b, t, d]"
      using apply_rotary_embedding_item [OF assms(1,2) sh(1,2) y(1) r(1,2,3) u(1)] u(2) by simp
    finally show ?thesis
      using rotate_back_first [of "item x [b, h, t, d]" "item th [b, t, d]"
          "item x [b, h, t, d + D div 2]"]
      by simp
  next
    case False
    define e where "e = d - D div 2"
    with False r assms have e: "e < D div 2" "e < D" "d = e + D div 2"
      by (auto dest: even_halves)
    have "item z [b, h, t, d] =
        item y [b, h, t, d] * item ?c' [b, t, e] + item y [b, h, t, e] * item ?s' [b, t, e]"
      using apply_rotary_embedding_item [OF y(2) assms(2) sh(3,4) z(1) r] False
      by (simp add: e_def)
    also have "item y [b, h, t, d] =
        item x [b, h, t, d] * item ?c [b, t, e] + item x [b, h, t, e] * item ?s [b, t, e]"
      using apply_rotary_embedding_item [OF assms(1,2) sh(1,2) y(1) r] False
      by (simp add: e_def)
    also have "item y [b, h, t, e] =
        item x [b, h, t, e] * item ?c [b, t, e] - item x [b, h, t, d] * item ?s [b, t, e]"
      using apply_rotary_embedding_item [OF assms(1,2) sh(1,2) y(1) r(1,2,3) e(2)] e(1,3)
      by simp
    finally show ?thesis
      using rotate_back_second [of "item x [b, h, t, d]" "item th [b, t, e]"
          "item x [b, h, t, e]"]
      by simp
  qed
  with y z assms show ?thesis by auto
qed

text \<open>One head, one position, two features, rotated by half a radian and back.\<close>

theorem rotary_round_trip_witness:
  "\<exists>y z.
     apply_rotary_embedding \<lparr>shape = [1, 1, 1, 2], item = (\<lambda>idx. if idx ! 3 = 0 then 3 else 4)\<rparr>
       (amap sin (full [1, 1, 1] (1 / 2))) (amap cos (full [1, 1, 1] (1 / 2))) = Inr y \<and>
     apply_rotary_embedding y (amap sin (amap uminus (full [1, 1, 1] (1 / 2))))
       (amap cos (amap uminus (full [1, 1, 1] (1 / 2)))) = Inr z \<and>
     shape z = [1, 1, 1, 2] \<and> item z [0, 0, 0, 0] = 3 \<and> item z [0, 0, 0, 1] = 4"
proof -
  let ?x = "\<lparr>shape = [1, 1, 1, 2], item = (\<lambda>idx. if idx ! 3 = 0 then 3 else (4::real))\<rparr>"
  let ?th = "full [1, 1, 1] (1 / 2 :: real)"
  have h: "shape ?x = [1, 1, 1, 2]" "even (2::nat)" "shape ?th = [1, 1, 2 div 2]"
    by simp_all
  from rotary_round_trip [OF h]
  obtain y z where r:
    "apply_rotary_embedding ?x (amap sin ?th) (amap cos ?th) = Inr y"
    "apply_rotary_embedding y (amap sin (amap uminus ?th)) (amap cos (amap uminus ?th)) = Inr z"
    "shape z = shape ?x"
    "\<forall>b h t d. b < 1 \<and> h < 1 \<and> t < 1 \<and> d < 2 \<longrightarrow> item z [b, h, t, d] = item ?x [b, h, t, d]"
    by blast
  from r(4) have "item z [0, 0, 0, 0] = item ?x [0, 0, 0, 0]"
    and "item z [0, 0, 0, 1] = item ?x [0, 0, 0, 1]"
    by simp_all
  with r(1,2,3) show ?thesis by simp
qed

section \<open>The attention mask and the reference attention (claim C5)\<close>


lemma item_make_attention_mask:
  assumes "shape qs = [B, t]" and "shape ks = [B, T]" and "shape qo = [B]"
    and "b < B" and "i < t" and "j < T"
  shows "item (make_attention_mask t T qs ks qo c) [b, 0, i, j] =
    (item qs [b, i] = item ks [b, j] \<and> (c \<longrightarrow> int j \<le> int i + item qo [b]))"
  using assms
  by (simp add: make_attention_mask_def Let_def broadcasted_iota_def add_def)






section \<open>The cache update (claim C2)\<close>

lemma shape_nonzero [simp]: "shape (nonzero x) = shape x"
  by (simp add: nonzero_def)

lemma item_nonzero [simp]: "item (nonzero x) idx = (if item x idx \<noteq> 0 then 1 else 0)"
  by (simp add: nonzero_def)

lemma shape_sum_last [simp]: "shape (sum_last x) = butlast (shape x)"
  by (simp add: sum_last_def)

lemma item_sum_last [simp]: "item (sum_last x) idx = (\<Sum>i<last (shape x). item x (idx @ [i]))"
  by (simp add: sum_last_def)

lemma shape_vmap_update [simp]: "shape (vmap_update a u s) = shape a"
  by (simp add: vmap_update_def)

lemma cache_update_ids:
  assumes "cache_update be c idx k v segs = Inr (k', v', qs, ks, qo)"
    and "shape (cache_v c ! idx) = [B, H, Tm, D]" and "shape (lengths c) = [B]"
    and "shape segs = [B, t]"
  shows "qs = nonzero segs" and "qo = lengths c" and "shape ks = [B, Tm]"
    and "\<forall>b j. b < B \<and> j < Tm \<longrightarrow> item ks [b, j] =
      (if int j < item (lengths c) [b] + (\<Sum>i<t. if item segs [b, i] \<noteq> 0 then 1 else 0)
       then 1 else 0)"
  using assms
  by (auto simp: cache_update_def Let_def arange_def add_def time_axis_def split: if_splits)

lemma cache_update_kv:
  assumes "cache_update be c idx k v segs = Inr (k', v', qs, ks, qo)"
    and "shape (cache_k c ! idx) = [B, H, Tm, D]"
    and "shape (cache_v c ! idx) = [B, H, Tm, D]" and "shape (lengths c) = [B]"
    and "shape segs = [B, t]"
    and "b < B" and "h < H" and "j < Tm" and "d < D"
  shows "shape k' = [B, H, Tm, D]" and "shape v' = [B, H, Tm, D]"
    and "item k' [b, h, j, d] =
      item (vmap_update (cache_k c ! idx) (amap (to_bfloat16 be) k) (lengths c)) [b, h, j, d] *
      real_of_int (item ks [b, j])"
    and "item v' [b, h, j, d] =
      item (vmap_update (cache_v c ! idx) (amap (to_bfloat16 be) v) (lengths c)) [b, h, j, d] *
      real_of_int (item ks [b, j])"
  using assms
  by (auto simp: cache_update_def Let_def arange_def add_def mul_def time_axis_def
      split: if_splits)

lemma vmap_update_in_range:
  assumes "shape a = [B, H, Tm, D]" and "shape u = [B, H, t, D]"
    and "0 \<le> item s [b]" and "item s [b] + int t \<le> int Tm"
    and "h < H" and "d < D"
  shows "item (vmap_update a u s) [b, h, j, d] =
     (if nat (item s [b]) \<le> j \<and> j < nat (item s [b]) + t
      then item u [b, h, j - nat (item s [b]), d] else item a [b, h, j, d])"
  using assms
  by (auto simp: vmap_update_def Let_def clamp_start_def time_axis_def)

text \<open>
  What holds of the cache update at every length: the key-segment mask marks exactly the
  positions below the row's prior length plus its number of non-padding tokens, and the
  new keys and values are zero from that bound on.
\<close>

lemma cache_update_mask_and_zeros:
  assumes "cache_update be c idx k v segs = Inr (k', v', qs, ks, qo)"
    and "shape (cache_k c ! idx) = [B, H, Tm, D]"
    and "shape (cache_v c ! idx) = [B, H, Tm, D]" and "shape (lengths c) = [B]"
    and "shape segs = [B, t]"
    and "b < B" and "h < H" and "j < Tm" and "d < D"
  shows "item ks [b, j] =
      (if int j < item (lengths c) [b] + (\<Sum>i<t. if item segs [b, i] \<noteq> 0 then 1 else 0)
       then 1 else 0)"
    and "item (lengths c) [b] + (\<Sum>i<t. if item segs [b, i] \<noteq> 0 then 1 else 0) \<le> int j \<Longrightarrow>
      item k' [b, h, j, d] = 0 \<and> item v' [b, h, j, d] = 0"
proof -
  show m: "item ks [b, j] =
      (if int j < item (lengths c) [b] + (\<Sum>i<t. if item segs [b, i] \<noteq> 0 then 1 else 0)
       then 1 else 0)"
    using cache_update_ids(4) [OF assms(1,3,4,5)] assms(6,8) by blast
  show "item k' [b, h, j, d] = 0 \<and> item v' [b, h, j, d] = 0"
    if "item (lengths c) [b] + (\<Sum>i<t. if item segs [b, i] \<noteq> 0 then 1 else 0) \<le> int j"
    using that m cache_update_kv(3,4) [OF assms] by simp
qed

text \<open>
  The cache update when the chunk fits (\<open>0 \<le> length\<close> and \<open>length + t \<le> T\<close>): the chunk is
  written at the row's own prior length, and what lies below the bound is kept.
\<close>

lemma cache_update_in_range:
  assumes "cache_update be c idx k v segs = Inr (k', v', qs, ks, qo)"
    and "shape (cache_k c ! idx) = [B, H, Tm, D]"
    and "shape (cache_v c ! idx) = [B, H, Tm, D]" and "shape (lengths c) = [B]"
    and "shape segs = [B, t]" and "shape k = [B, H, t, D]" and "shape v = [B, H, t, D]"
    and "b < B" and "h < H" and "j < Tm" and "d < D"
    and "0 \<le> item (lengths c) [b]" and "item (lengths c) [b] + int t \<le> int Tm"
    and "int j < item (lengths c) [b] + (\<Sum>i<t. if item segs [b, i] \<noteq> 0 then 1 else 0)"
  shows "item k' [b, h, j, d] =
      (if nat (item (lengths c) [b]) \<le> j \<and> j < nat (item (lengths c) [b]) + t
       then to_bfloat16 be (item k [b, h, j - nat (item (lengths c) [b]), d])
       else item (cache_k c ! idx) [b, h, j, d])"
    and "item v' [b, h, j, d] =
      (if nat (item (lengths c) [b]) \<le> j \<and> j < nat (item (lengths c) [b]) + t
       then to_bfloat16 be (item v [b, h, j - nat (item (lengths c) [b]), d])
       else item (cache_v c ! idx) [b, h, j, d])"
proof -
  have m: "item ks [b, j] = 1"
    using cache_update_mask_and_zeros(1) [OF assms(1,2,3,4,5,8,9,10,11)] assms(14) by simp
  have uk: "shape (amap (to_bfloat16 be) k) = [B, H, t, D]"
    and uv: "shape (amap (to_bfloat16 be) v) = [B, H, t, D]"
    using assms(6,7) by simp_all
  show "item k' [b, h, j, d] =
      (if nat (item (lengths c) [b]) \<le> j \<and> j < nat (item (lengths c) [b]) + t
       then to_bfloat16 be (item k [b, h, j - nat (item (lengths c) [b]), d])
       else item (cache_k c ! idx) [b, h, j, d])"
    using cache_update_kv(3) [OF assms(1,2,3,4,5,8,9,10,11)] m
      vmap_update_in_range [OF assms(2) uk assms(12,13,9,11), of j]
    by simp
  show "item v' [b, h, j, d] =
      (if nat (item (lengths c) [b]) \<le> j \<and> j < nat (item (lengths c) [b]) + t
       then to_bfloat16 be (item v [b, h, j - nat (item (lengths c) [b]), d])
       else item (cache_v c ! idx) [b, h, j, d])"
    using cache_update_kv(4) [OF assms(1,2,3,4,5,8,9,10,11)] m
      vmap_update_in_range [OF assms(3) uv assms(12,13,9,11), of j]
    by simp
qed

text \<open>
  Claim C2 at a full cache: one row, one head of two features, a buffer of two positions
  that holds the keys \<open>(1, 1)\<close> and \<open>(2, 2)\<close>, prior length 2, and a chunk of one token
  with key \<open>(7, 7)\<close>. The claim has the chunk written at the row's prior length, position
  2, which the buffer does not have. The update is clamped: the key of the chunk is
  written at position 1, over the cached key \<open>(2, 2)\<close>, and the mask marks both positions
  attend-able, while the query offset is 2.
\<close>

theorem cache_update_full_cache:
  "\<exists>k' v' qs ks qo.
     cache_update example_backend
       \<lparr>cache_k = [\<lparr>shape = [1, 1, 2, 2], item = (\<lambda>idx. if idx ! 2 = 0 then 1 else 2)\<rparr>],
        cache_v = [\<lparr>shape = [1, 1, 2, 2], item = (\<lambda>idx. if idx ! 2 = 0 then 1 else 2)\<rparr>],
        lengths = full [1] 2\<rparr>
       0 (full [1, 1, 1, 2] 7) (full [1, 1, 1, 2] 7) (full [1, 1] 1) = Inr (k', v', qs, ks, qo) \<and>
     shape k' = [1, 1, 2, 2] \<and>
     item k' [0, 0, 0, 0] = 1 \<and> item k' [0, 0, 0, 1] = 1 \<and>
     item k' [0, 0, 1, 0] = 7 \<and> item k' [0, 0, 1, 1] = 7 \<and>
     item v' [0, 0, 1, 0] = 7 \<and> item v' [0, 0, 1, 1] = 7 \<and>
     item ks [0, 0] = 1 \<and> item ks [0, 1] = 1 \<and> item qo [0] = 2"
  by (simp add: cache_update_def Let_def example_backend_def vmap_update_def clamp_start_def
      time_axis_def mul_def add_def arange_def)

section \<open>The forward pass with a cache (claims C3 and C4)\<close>

lemma apply_rotary_embedding_returns:
  assumes "shape x = [a, b, c, D]" and "even D"
    and "shape s = [s0, s1, D div 2]" and "shape cs = [c0, c1, D div 2]"
  shows "\<exists>y. apply_rotary_embedding x s cs = Inr y \<and> last (shape y) = D"
  using assms
  by (simp add: apply_rotary_embedding_def ndim_def split_last_def Let_def concatenate_last_def
      sub_def mul_def add_def even_halves)

lemma cache_update_returns:
  assumes "idx < length (cache_k c)" and "idx < length (cache_v c)"
  shows "\<exists>k' v' qs ks qo. cache_update be c idx k v segs = Inr (k', v', qs, ks, qo)"
  using assms by (simp add: cache_update_def Let_def)

lemma attention_returns:
  assumes "last (shape q) \<noteq> 0"
  shows "\<exists>out. attention be q k v qs ks qo cfg = Inr out"
  using assms by (simp add: attention_def Let_def)

lemma forward_layer_stages:
  assumes "shape (layer_q layer) ! 2 = D" and "shape (layer_k layer) ! 2 = D"
    and "even D" and "0 < D"
    and "shape sin_t = [s0, s1, D div 2]" and "shape cos_t = [c0, c1, D div 2]"
    and "idx < length (cache_k c)" and "idx < length (cache_v c)"
  shows "\<exists>q1 k1 k' v' qs ks qo out.
    apply_rotary_embedding
      (einsum_btd_dhq_bhtq (rms_norm x (gamma1 layer)) (layer_q layer)) sin_t cos_t = Inr q1 \<and>
    apply_rotary_embedding
      (einsum_btd_dhq_bhtq (rms_norm x (gamma1 layer)) (layer_k layer)) sin_t cos_t = Inr k1 \<and>
    cache_update be c idx k1
      (einsum_btd_dhq_bhtq (rms_norm x (gamma1 layer)) (layer_v layer)) segs =
      Inr (k', v', qs, ks, qo) \<and>
    attention be q1 k' v' qs ks qo cfg = Inr out"
proof -
  let ?a = "rms_norm x (gamma1 layer)"
  let ?q = "einsum_btd_dhq_bhtq ?a (layer_q layer)"
  let ?k = "einsum_btd_dhq_bhtq ?a (layer_k layer)"
  let ?v = "einsum_btd_dhq_bhtq ?a (layer_v layer)"
  have sq: "shape ?q = [shape ?a ! 0, shape (layer_q layer) ! 1, shape ?a ! 1, D]"
    and sk: "shape ?k = [shape ?a ! 0, shape (layer_k layer) ! 1, shape ?a ! 1, D]"
    using assms(1,2) by (simp_all add: einsum_btd_dhq_bhtq_def)
  from apply_rotary_embedding_returns [OF sq assms(3,5,6)]
  obtain q1 where q1: "apply_rotary_embedding ?q sin_t cos_t = Inr q1" "last (shape q1) = D"
    by blast
  from apply_rotary_embedding_returns [OF sk assms(3,5,6)]
  obtain k1 where k1: "apply_rotary_embedding ?k sin_t cos_t = Inr k1"
    by blast
  from cache_update_returns [OF assms(7,8)]
  obtain k' v' qs ks qo where cu: "cache_update be c idx k1 ?v segs = Inr (k', v', qs, ks, qo)"
    by blast
  from q1(2) assms(4) have "last (shape q1) \<noteq> 0" by simp
  from attention_returns [OF this]
  obtain out where out: "attention be q1 k' v' qs ks qo cfg = Inr out"
    by blast
  from q1(1) k1 cu out show ?thesis by blast
qed

lemma forward_layer_returns:
  assumes "shape (layer_q layer) ! 2 = D" and "shape (layer_k layer) ! 2 = D"
    and "even D" and "0 < D"
    and "shape sin_t = [s0, s1, D div 2]" and "shape cos_t = [c0, c1, D div 2]"
    and "idx < length (cache_k c)" and "idx < length (cache_v c)"
    and "\<not> use_attn_kernel cfg"
  shows "\<exists>x' k' v'. forward_layer be x segs layer sin_t cos_t idx cfg (Some c) = Inr (x', k', v')"
  using forward_layer_stages [OF assms(1-8), of x be segs cfg] assms(9)
  by (auto simp: forward_layer_def Let_def)

lemma forward_layer_kernel_value_error:
  assumes "shape (layer_q layer) ! 2 = D" and "shape (layer_k layer) ! 2 = D"
    and "even D" and "0 < D"
    and "shape sin_t = [s0, s1, D div 2]" and "shape cos_t = [c0, c1, D div 2]"
    and "idx < length (cache_k c)" and "idx < length (cache_v c)"
    and "use_attn_kernel cfg"
  shows "forward_layer be x segs layer sin_t cos_t idx cfg (Some c) =
    Inl (ValueError ''Kernel is only for training.'')"
  using forward_layer_stages [OF assms(1-8), of x be segs cfg] assms(9)
  by (auto simp: forward_layer_def Let_def)

lemma forward_layer_kernel_raises:
  assumes "use_attn_kernel cfg"
  shows "\<exists>e. forward_layer be x segs layer sin_t cos_t idx cfg (Some c) = Inl e"
  using assms by (auto simp: forward_layer_def Let_def split: sum.splits)

lemma cache_update_no_kernel:
  "cache_update (be\<lparr>flash_attention := f\<rparr>) c idx k v segs = cache_update be c idx k v segs"
  by (simp add: cache_update_def)

lemma attention_no_kernel:
  "attention (be\<lparr>flash_attention := f\<rparr>) q k v qs ks qo cfg = attention be q k v qs ks qo cfg"
  by (simp add: attention_def)

lemma forward_layer_cache_no_kernel:
  "forward_layer (be\<lparr>flash_attention := f\<rparr>) x segs layer sin_t cos_t idx cfg (Some c) =
   forward_layer be x segs layer sin_t cos_t idx cfg (Some c)"
  by (auto simp: forward_layer_def Let_def cache_update_no_kernel attention_no_kernel
      split: sum.splits prod.splits)

lemma forward_layers_cache_no_kernel:
  "forward_layers (be\<lparr>flash_attention := f\<rparr>) segs sin_t cos_t cfg idx ls x (Some c) =
   forward_layers be segs sin_t cos_t cfg idx ls x (Some c)"
  by (induction ls arbitrary: idx x c)
    (simp_all add: forward_layer_cache_no_kernel split: sum.splits prod.splits)

lemma forward_cache_no_kernel:
  "forward (be\<lparr>flash_attention := f\<rparr>) x segs w cfg (Some c) = forward be x segs w cfg (Some c)"
  by (simp add: forward_def Let_def split_beta forward_layers_cache_no_kernel)

text \<open>The loop over the layers replaces keys and values in the cache and nothing else.\<close>

lemma forward_layers_lengths:
  assumes "forward_layers be segs sin_t cos_t cfg idx ls x (Some c) = (r, ca)"
  shows "\<exists>c1. ca = Some c1 \<and> lengths c1 = lengths c \<and>
    length (cache_k c1) = length (cache_k c) \<and> length (cache_v c1) = length (cache_v c)"
  using assms
proof (induction ls arbitrary: idx x c)
  case Nil
  then show ?case by auto
next
  case (Cons layer ls)
  show ?case
  proof (cases "forward_layer be x segs layer sin_t cos_t idx cfg (Some c)")
    case (Inl e)
    with Cons.prems show ?thesis by auto
  next
    case (Inr t)
    obtain x' k v where t: "t = (x', k, v)" by (cases t)
    let ?c = "c\<lparr>cache_k := (cache_k c)[idx := k], cache_v := (cache_v c)[idx := v]\<rparr>"
    from Cons.prems Inr t
    have "forward_layers be segs sin_t cos_t cfg (Suc idx) ls x' (Some ?c) = (r, ca)"
      by simp
    from Cons.IH [OF this] show ?thesis by simp
  qed
qed

lemma forward_layers_append:
  "forward_layers be segs sin_t cos_t cfg idx (ls @ ls') x cache =
   (case forward_layers be segs sin_t cos_t cfg idx ls x cache of
      (Inl e, ca) \<Rightarrow> (Inl e, ca)
    | (Inr x', ca) \<Rightarrow> forward_layers be segs sin_t cos_t cfg (idx + length ls) ls' x' ca)"
  by (induction ls arbitrary: idx x cache) (simp_all split: sum.splits prod.splits)

lemma forward_layers_returns:
  assumes "\<forall>layer \<in> set ls. shape (layer_q layer) ! 2 = D \<and> shape (layer_k layer) ! 2 = D"
    and "even D" and "0 < D"
    and "shape sin_t = [s0, s1, D div 2]" and "shape cos_t = [c0, c1, D div 2]"
    and "idx + length ls \<le> length (cache_k c)" and "idx + length ls \<le> length (cache_v c)"
    and "\<not> use_attn_kernel cfg"
  shows "\<exists>x' c1. forward_layers be segs sin_t cos_t cfg idx ls x (Some c) = (Inr x', Some c1)"
  using assms(1,6,7)
proof (induction ls arbitrary: idx x c)
  case Nil
  then show ?case by simp
next
  case (Cons layer ls)
  from Cons.prems have l: "shape (layer_q layer) ! 2 = D" "shape (layer_k layer) ! 2 = D"
    and i: "idx < length (cache_k c)" "idx < length (cache_v c)"
    by simp_all
  from forward_layer_returns [OF l assms(2,3,4,5) i assms(8)]
  obtain x' k v where f: "forward_layer be x segs layer sin_t cos_t idx cfg (Some c) = Inr (x', k, v)"
    by blast
  let ?c = "c\<lparr>cache_k := (cache_k c)[idx := k], cache_v := (cache_v c)[idx := v]\<rparr>"
  from Cons.prems
  have "\<exists>x'' c1. forward_layers be segs sin_t cos_t cfg (Suc idx) ls x' (Some ?c) = (Inr x'', Some c1)"
    by (intro Cons.IH) simp_all
  with f show ?case by simp
qed

lemma shape_generate_even:
  assumes "even D"
  shows "shape (fst (generate_fixed_pos_embedding D n mn mx)) = [n, D div 2]"
    and "shape (snd (generate_fixed_pos_embedding D n mn mx)) = [n, D div 2]"
  using assms by (auto simp: shape_generate_fixed_pos_embedding)

lemma shape_slices_at [simp]:
  "shape (slices_at table indices len) = [shape indices ! 0, len, shape table ! 1]"
  by (simp add: slices_at_def)

lemma shape_take_rows [simp]: "shape (take_rows table x) = shape x @ [shape table ! 1]"
  by (simp add: take_rows_def)

lemma forward_returns:
  assumes "shape x = [B, T]" and "T \<le> max_seq_len cfg"
    and "\<forall>layer \<in> set (layers w).
      shape (layer_q layer) ! 2 = key_dim cfg \<and> shape (layer_k layer) ! 2 = key_dim cfg"
    and "even (key_dim cfg)" and "0 < key_dim cfg"
    and "length (layers w) \<le> length (cache_k c)" and "length (layers w) \<le> length (cache_v c)"
    and "\<not> use_attn_kernel cfg"
  shows "\<exists>logits cn ca. forward be x segs w cfg (Some c) = (Inr (logits, Some cn), Some ca)"
proof -
  let ?g = "generate_fixed_pos_embedding (key_dim cfg) (max_seq_len cfg) 1 10000"
  let ?s = "slices_at (fst ?g) (lengths c) T" and ?c = "slices_at (snd ?g) (lengths c) T"
  have s: "shape ?s = [shape (lengths c) ! 0, T, key_dim cfg div 2]"
    and c: "shape ?c = [shape (lengths c) ! 0, T, key_dim cfg div 2]"
    using assms(4) by (simp_all add: shape_generate_even)
  from assms(6,7) have i: "0 + length (layers w) \<le> length (cache_k c)"
    "0 + length (layers w) \<le> length (cache_v c)" by simp_all
  from forward_layers_returns [OF assms(3,4,5) s c i assms(8)]
  obtain x' c1 where
    "forward_layers be segs ?s ?c cfg 0 (layers w) (take_rows (embedding w) x) (Some c) =
      (Inr x', Some c1)"
    by blast
  with assms(1,2) show ?thesis
    by (simp add: forward_def Let_def split_beta)
qed

lemma forward_result:
  assumes "forward be x segs w cfg (Some c) = (Inr (logits, c'), ca)"
  shows "\<exists>co. ca = Some co \<and> lengths co = lengths c \<and>
    c' = Some (co\<lparr>lengths := amap int32 (add (lengths c) (sum_last (nonzero segs)))\<rparr>)"
proof -
  let ?g = "generate_fixed_pos_embedding (key_dim cfg) (max_seq_len cfg) 1 10000"
  let ?T = "shape (take_rows (embedding w) x) ! 1"
  let ?s = "slices_at (fst ?g) (lengths c) ?T" and ?c = "slices_at (snd ?g) (lengths c) ?T"
  obtain r cb where
    f: "forward_layers be segs ?s ?c cfg 0 (layers w) (take_rows (embedding w) x) (Some c) = (r, cb)"
    by (cases "forward_layers be segs ?s ?c cfg 0 (layers w) (take_rows (embedding w) x) (Some c)")
  from forward_layers_lengths [OF f]
  obtain c1 where c1: "cb = Some c1" "lengths c1 = lengths c" by blast
  from assms f c1 show ?thesis
    by (auto simp: forward_def Let_def split_beta split: if_splits sum.splits)
qed

lemma count_nonzero:
  "(\<Sum>i<(t::nat). if P i then 1 else 0) = int (card {i. i < t \<and> P i})"
proof -
  have "(\<Sum>i<t. if P i then 1 else (0::int)) = (\<Sum>i\<in>{i \<in> {..<t}. P i}. 1)"
    by (rule sum.inter_filter [symmetric]) simp
  also have "\<dots> = int (card {i \<in> {..<t}. P i})" by simp
  also have "{i \<in> {..<t}. P i} = {i. i < t \<and> P i}" by auto
  finally show ?thesis .
qed

lemma int32_id: "is_int32 i \<Longrightarrow> int32 i = i"
  by (simp add: is_int32_def int32_def)

lemma is_int32_int32: "is_int32 (int32 i)"
  by (simp add: is_int32_def int32_def)

lemma int32_wraps: "int32 (2 ^ 31 - 1 + 1) = - (2 ^ 31)"
  by (simp add: int32_def)

lemma advanced_lengths:
  assumes "shape ls = [B]" and "shape segs = [B, t]" and "b < B"
  shows "item (amap int32 (add ls (sum_last (nonzero segs)))) [b] =
    int32 (item ls [b] + int (card {i. i < t \<and> item segs [b, i] \<noteq> 0}))"
  using assms by (simp add: add_def count_nonzero)

text \<open>
  Claim C3: when \<open>forward\<close> returns from a call with a cache whose lengths have shape
  \<open>[B]\<close>, on segment ids of shape \<open>[B, t]\<close>, and no new length leaves the range of
  \<open>int32\<close> (every prior length is an \<open>int32\<close> value, and the prior length plus the row's
  number of non-zero segment ids stays below \<open>2 ^ 31\<close>), the lengths of the returned cache
  are, row by row, the lengths before the call plus the number of non-zero segment ids of
  that row of the chunk, hence not smaller; the caller's cache object keeps its lengths;
  and the cache that the loop hands on after any number of layers still has the lengths
  of the call's start: the lengths change once, after the last layer.
\<close>

theorem forward_advances_lengths:
  assumes "forward be x segs w cfg (Some c) = (Inr (logits, c'), ca)"
    and "shape (lengths c) = [B]" and "shape segs = [B, t]"
    and "\<forall>b<B. is_int32 (item (lengths c) [b]) \<and>
      item (lengths c) [b] + int (card {i. i < t \<and> item segs [b, i] \<noteq> 0}) < 2 ^ 31"
  shows "\<exists>cn co. c' = Some cn \<and> ca = Some co \<and> lengths co = lengths c \<and>
    shape (lengths cn) = [B] \<and>
    (\<forall>b. b < B \<longrightarrow>
       item (lengths cn) [b] =
         item (lengths c) [b] + int (card {i. i < t \<and> item segs [b, i] \<noteq> 0}) \<and>
       item (lengths c) [b] \<le> item (lengths cn) [b]) \<and>
    (\<forall>n sin_t cos_t x0 r cm.
       forward_layers be segs sin_t cos_t cfg 0 (take n (layers w)) x0 (Some c) = (r, cm) \<longrightarrow>
       (\<exists>c1. cm = Some c1 \<and> lengths c1 = lengths c))"
proof -
  from forward_result [OF assms(1)]
  obtain co where co: "ca = Some co" "lengths co = lengths c"
    "c' = Some (co\<lparr>lengths := amap int32 (add (lengths c) (sum_last (nonzero segs)))\<rparr>)"
    by blast
  let ?cn = "co\<lparr>lengths := amap int32 (add (lengths c) (sum_last (nonzero segs)))\<rparr>"
  have sh: "shape (lengths ?cn) = [B]"
    using assms(2,3) by (simp add: add_def)
  have adv: "item (lengths ?cn) [b] =
      item (lengths c) [b] + int (card {i. i < t \<and> item segs [b, i] \<noteq> 0}) \<and>
      item (lengths c) [b] \<le> item (lengths ?cn) [b]" if "b < B" for b
  proof -
    let ?n = "item (lengths c) [b] + int (card {i. i < t \<and> item segs [b, i] \<noteq> 0})"
    from assms(4) that have "is_int32 (item (lengths c) [b])" and "?n < 2 ^ 31"
      by simp_all
    then have "is_int32 ?n"
      by (simp add: is_int32_def)
    then have "int32 ?n = ?n"
      by (rule int32_id)
    with advanced_lengths [OF assms(2,3) that] show ?thesis by simp
  qed
  have loop: "\<exists>c1. cm = Some c1 \<and> lengths c1 = lengths c"
    if "forward_layers be segs sin_t cos_t cfg 0 (take n (layers w)) x0 (Some c) = (r, cm)"
    for n sin_t cos_t x0 r cm
    using forward_layers_lengths [OF that] by blast
  from co sh adv loop show ?thesis by blast
qed

text \<open>
  Two layers, two rows with prior lengths 1 and 0, and a chunk of two positions of which
  the second row's last is padding.
\<close>

theorem forward_advances_lengths_witness:
  "\<exists>logits cn co.
     forward example_backend (full [2, 2] 1)
       \<lparr>shape = [2, 2], item = (\<lambda>idx. if idx = [1, 1] then 0 else 1)\<rparr>
       (const_weights tiny_cfg 1) tiny_cfg
       (Some ((KVCache_init tiny_cfg 2 4)
          \<lparr>lengths := \<lparr>shape = [2], item = (\<lambda>idx. if idx = [0] then 1 else 0)\<rparr>\<rparr>)) =
       (Inr (logits, Some cn), Some co) \<and>
     item (lengths co) [0] = 1 \<and> item (lengths co) [1] = 0 \<and>
     item (lengths cn) [0] = 3 \<and> item (lengths cn) [1] = 1"
proof -
  let ?segs = "\<lparr>shape = [2, 2], item = (\<lambda>idx. if idx = [1, 1] then 0 else (1::int))\<rparr>"
  let ?ls = "\<lparr>shape = [2], item = (\<lambda>idx. if idx = [0] then 1 else (0::int))\<rparr>"
  let ?c = "(KVCache_init tiny_cfg 2 4)\<lparr>lengths := ?ls\<rparr>"
  have h: "shape (full [2, 2] (1::int)) = [2, 2]" "2 \<le> max_seq_len tiny_cfg"
    "\<forall>layer \<in> set (layers (const_weights tiny_cfg 1)).
       shape (layer_q layer) ! 2 = key_dim tiny_cfg \<and> shape (layer_k layer) ! 2 = key_dim tiny_cfg"
    "even (key_dim tiny_cfg)" "0 < key_dim tiny_cfg"
    "length (layers (const_weights tiny_cfg 1)) \<le> length (cache_k ?c)"
    "length (layers (const_weights tiny_cfg 1)) \<le> length (cache_v ?c)"
    "\<not> use_attn_kernel tiny_cfg"
    by (simp_all add: tiny_cfg_def const_weights_def const_layer_def KVCache_init_def)
  from forward_returns [OF h, of example_backend ?segs]
  obtain logits cn co where f:
    "forward example_backend (full [2, 2] 1) ?segs (const_weights tiny_cfg 1) tiny_cfg (Some ?c) =
       (Inr (logits, Some cn), Some co)"
    by blast
  have s: "shape (lengths ?c) = [2]" "shape ?segs = [2, 2]" by simp_all
  have two: "{..<2::nat} = {0, 1}" by auto
  have c0: "int (card {i. i < 2 \<and> item ?segs [0, i] \<noteq> 0}) = 2"
    unfolding count_nonzero [symmetric] two by simp
  have c1: "int (card {i. i < 2 \<and> item ?segs [1, i] \<noteq> 0}) = 1"
    unfolding count_nonzero [symmetric] two by simp
  have r: "is_int32 (item (lengths ?c) [b]) \<and>
      item (lengths ?c) [b] + int (card {i. i < 2 \<and> item ?segs [b, i] \<noteq> 0}) < 2 ^ 31"
    if "b < 2" for b
  proof -
    from that have "b = 0 \<or> b = 1" by auto
    then show ?thesis
    proof
      assume "b = 0"
      with c0 show ?thesis by (simp add: is_int32_def)
    next
      assume "b = 1"
      with c1 show ?thesis by (simp add: is_int32_def)
    qed
  qed
  then have n: "\<forall>b<2. is_int32 (item (lengths ?c) [b]) \<and>
      item (lengths ?c) [b] + int (card {i. i < 2 \<and> item ?segs [b, i] \<noteq> 0}) < 2 ^ 31"
    by blast
  from forward_advances_lengths [OF f s n]
  have co: "lengths co = lengths ?c"
    and adv: "\<And>b. b < 2 \<Longrightarrow> item (lengths cn) [b] =
         item (lengths ?c) [b] + int (card {i. i < 2 \<and> item ?segs [b, i] \<noteq> 0})"
    by auto
  from adv [of 0] adv [of 1] c0 c1
  have "item (lengths cn) [0] = 3" and "item (lengths cn) [1] = 1" by simp_all
  with f co show ?thesis by simp
qed

text \<open>
  Beyond that range the sum wraps: from the prior length \<open>2 ^ 31 - 1\<close>, one token that is
  not padding gives the new length \<open>- (2 ^ 31)\<close> (here with weights of no layer).
\<close>

lemma forward_lengths_wrap:
  "\<exists>logits cn.
     forward example_backend (full [1, 1] 0) (full [1, 1] 1)
       ((const_weights tiny_cfg 0)\<lparr>layers := []\<rparr>) tiny_cfg
       (Some ((KVCache_init tiny_cfg 1 4)\<lparr>lengths := full [1] (2 ^ 31 - 1)\<rparr>)) =
       (Inr (logits, Some cn), Some ((KVCache_init tiny_cfg 1 4)\<lparr>lengths := full [1] (2 ^ 31 - 1)\<rparr>)) \<and>
     item (lengths cn) [0] = - (2 ^ 31)"
  by (simp add: forward_def Let_def split_beta tiny_cfg_def const_weights_def KVCache_init_def
      add_def int32_def)

text \<open>
  Claim C4 as stated, for every configuration with \<open>use_attn_kernel\<close>, fails: the test
  stands in \<open>forward_layer\<close>, so with no layer nothing raises. With the source's
  \<open>test_cfg\<close>, where \<open>use_attn_kernel\<close> holds, and weights without layers, \<open>forward\<close> with a
  cache returns, and the returned cache has its length advanced.
\<close>

theorem kernel_without_layers_counterexample:
  "use_attn_kernel test_cfg \<and>
   (\<exists>logits cn.
      forward example_backend (full [1, 1] 0) (full [1, 1] 1)
        ((const_weights test_cfg 0)\<lparr>layers := []\<rparr>) test_cfg
        (Some (KVCache_init test_cfg 1 1024)) =
        (Inr (logits, Some cn), Some (KVCache_init test_cfg 1 1024)) \<and>
      item (lengths (KVCache_init test_cfg 1 1024)) [0] = 0 \<and> item (lengths cn) [0] = 1)"
  by (simp add: forward_def Let_def split_beta test_cfg_def const_weights_def KVCache_init_def
      add_def int32_def)

text \<open>
  Claim C4, amended: for every configuration with \<open>use_attn_kernel\<close> and weights of at
  least one layer, \<open>forward\<close> with a cache raises, and the caller's cache is as before
  the call: no key, no value and no length has changed. The outcome does not depend on
  the kernel, which is never called with a cache. When the chunk is no longer than
  \<open>max_seq_len\<close>, \<open>key_dim\<close> is even and positive, the first layer's query and key
  projections have that head size and the cache has a first layer, the error is the
  ValueError "Kernel is only for training.".
\<close>

theorem kernel_with_cache_raises:
  assumes "use_attn_kernel cfg" and "layers w \<noteq> []"
  shows "(\<exists>e. forward be x segs w cfg (Some c) = (Inl e, Some c)) \<and>
    (\<forall>f. forward (be\<lparr>flash_attention := f\<rparr>) x segs w cfg (Some c) =
       forward be x segs w cfg (Some c)) \<and>
    (shape x = [B, T] \<and> T \<le> max_seq_len cfg \<and> even (key_dim cfg) \<and> 0 < key_dim cfg \<and>
     shape (layer_q (hd (layers w))) ! 2 = key_dim cfg \<and>
     shape (layer_k (hd (layers w))) ! 2 = key_dim cfg \<and>
     cache_k c \<noteq> [] \<and> cache_v c \<noteq> [] \<longrightarrow>
     forward be x segs w cfg (Some c) =
       (Inl (ValueError ''Kernel is only for training.''), Some c))"
proof (intro conjI allI impI)
  from assms(2) obtain layer ls where w: "layers w = layer # ls"
    by (cases "layers w") auto
  let ?g = "generate_fixed_pos_embedding (key_dim cfg) (max_seq_len cfg) 1 10000"
  let ?x = "take_rows (embedding w) x"
  let ?s = "slices_at (fst ?g) (lengths c) (shape ?x ! 1)"
  let ?c = "slices_at (snd ?g) (lengths c) (shape ?x ! 1)"
  from forward_layer_kernel_raises [OF assms(1)]
  obtain e where "forward_layer be ?x segs layer ?s ?c 0 cfg (Some c) = Inl e"
    by blast
  with w show "\<exists>e. forward be x segs w cfg (Some c) = (Inl e, Some c)"
    by (simp add: forward_def Let_def split_beta)
  show "forward (be\<lparr>flash_attention := f\<rparr>) x segs w cfg (Some c) =
       forward be x segs w cfg (Some c)" for f
    by (rule forward_cache_no_kernel)
  assume a: "shape x = [B, T] \<and> T \<le> max_seq_len cfg \<and> even (key_dim cfg) \<and> 0 < key_dim cfg \<and>
     shape (layer_q (hd (layers w))) ! 2 = key_dim cfg \<and>
     shape (layer_k (hd (layers w))) ! 2 = key_dim cfg \<and>
     cache_k c \<noteq> [] \<and> cache_v c \<noteq> []"
  with w have l: "shape (layer_q layer) ! 2 = key_dim cfg" "shape (layer_k layer) ! 2 = key_dim cfg"
    and e: "even (key_dim cfg)" "0 < key_dim cfg"
    and i: "0 < length (cache_k c)" "0 < length (cache_v c)"
    by simp_all
  have s: "shape ?s = [shape (lengths c) ! 0, shape ?x ! 1, key_dim cfg div 2]"
    and c: "shape ?c = [shape (lengths c) ! 0, shape ?x ! 1, key_dim cfg div 2]"
    using e(1) by (simp_all add: shape_generate_even)
  from forward_layer_kernel_value_error [OF l e s c i assms(1)]
  have "forward_layer be ?x segs layer ?s ?c 0 cfg (Some c) =
      Inl (ValueError ''Kernel is only for training.'')" .
  with w a show "forward be x segs w cfg (Some c) =
       (Inl (ValueError ''Kernel is only for training.''), Some c)"
    by (simp add: forward_def Let_def split_beta)
qed

text \<open>The source's \<open>test_cfg\<close>, its one layer, and a fresh cache.\<close>

theorem kernel_with_cache_raises_witness:
  "forward example_backend (full [1, 1] 0) (full [1, 1] 1) (const_weights test_cfg 0) test_cfg
     (Some (KVCache_init test_cfg 1 1024)) =
     (Inl (ValueError ''Kernel is only for training.''), Some (KVCache_init test_cfg 1 1024)) \<and>
   forward (example_backend\<lparr>flash_attention := (\<lambda>q k v qs ks scale. v)\<rparr>)
     (full [1, 1] 0) (full [1, 1] 1) (const_weights test_cfg 0) test_cfg
     (Some (KVCache_init test_cfg 1 1024)) =
   forward example_backend (full [1, 1] 0) (full [1, 1] 1) (const_weights test_cfg 0) test_cfg
     (Some (KVCache_init test_cfg 1 1024))"
proof -
  have h: "use_attn_kernel test_cfg" "layers (const_weights test_cfg 0) \<noteq> []"
    by (simp_all add: test_cfg_def const_weights_def)
  have s: "shape (full [1, 1] (0::int)) = [1, 1] \<and> 1 \<le> max_seq_len test_cfg \<and>
     even (key_dim test_cfg) \<and> 0 < key_dim test_cfg \<and>
     shape (layer_q (hd (layers (const_weights test_cfg 0)))) ! 2 = key_dim test_cfg \<and>
     shape (layer_k (hd (layers (const_weights test_cfg 0)))) ! 2 = key_dim test_cfg \<and>
     cache_k (KVCache_init test_cfg 1 1024) \<noteq> [] \<and> cache_v (KVCache_init test_cfg 1 1024) \<noteq> []"
    by (simp add: test_cfg_def const_weights_def const_layer_def KVCache_init_def)
  note r = kernel_with_cache_raises [OF h, of example_backend "full [1, 1] 0" "full [1, 1] 1"
      "KVCache_init test_cfg 1 1024" 1 1]
  from r [THEN conjunct2, THEN conjunct2, rule_format, OF s]
    r [THEN conjunct2, THEN conjunct1, rule_format, of "\<lambda>q k v qs ks scale. v"]
  show ?thesis by (intro conjI)
qed

section \<open>Zero tokens in a prompt (claim C10)\<close>

lemma pow2_ceil_log2: "n \<le> 2 ^ ceil_log2 n"
proof (induction n rule: ceil_log2.induct)
  case (1 n)
  show ?case
  proof (cases "n \<le> 1")
    case True
    then show ?thesis by (subst ceil_log2.simps) simp
  next
    case False
    with 1 have "(n + 1) div 2 \<le> 2 ^ ceil_log2 ((n + 1) div 2)" by simp
    then have "n \<le> 2 * 2 ^ ceil_log2 ((n + 1) div 2)" by arith
    with False show ?thesis by (subst ceil_log2.simps) simp
  qed
qed

lemma prepare_chunk_result:
  assumes "shape chunk = [n]" and "n \<le> pad_to"
  shows "\<exists>p s. prepare_chunk chunk pad_to pad_id = Inr (p, s) \<and>
    shape p = [1, pad_to] \<and> shape s = [1, pad_to] \<and>
    (\<forall>i. item p [0, i] = (if i < n then item chunk [i] else 0)) \<and>
    (\<forall>i. item s [0, i] = (if (if i < n then item chunk [i] else 0) \<noteq> pad_id then 1 else 0))"
  using assms by (simp add: prepare_chunk_def Let_def)

lemma static_index_clamp:
  assumes "static_index i n = Inr b"
  shows "clamp_index i n = b" and "b < n"
  using assms
  by (auto simp: static_index_def clamp_index_def clamp_start_def Let_def split: if_splits)

lemma item_reset_length:
  assumes "shape ls = [B]" and "static_index batch_idx B = Inr b"
  shows "item (reset_length ls batch_idx) [b] = 0"
    and "shape (reset_length ls batch_idx) = [B]"
  using assms static_index_clamp(1) [OF assms(2)] by (simp_all add: reset_length_def)

lemma cache_update_ids_row:
  assumes "cache_update be c idx k v segs = Inr (k', v', qs, ks, qo)"
    and "shape (cache_v c ! idx) = [B, H, Tm, D]" and "shape (lengths c) = [B]"
    and "shape segs = [1, t]"
  shows "qs = nonzero segs" and "qo = lengths c" and "shape ks = [B, Tm]"
    and "\<forall>b j. b < B \<and> j < Tm \<longrightarrow> item ks [b, j] =
      (if int j < item (lengths c) [b] + (\<Sum>i<t. if item segs [0, i] \<noteq> 0 then 1 else 0)
       then 1 else 0)"
  using assms
  by (auto simp: cache_update_def Let_def arange_def add_def time_axis_def split: if_splits)

lemma item_make_attention_mask_row:
  assumes "shape qs = [1, t]" and "shape ks = [B, T]" and "shape qo = [B]"
    and "b < B" and "i < t" and "j < T"
  shows "item (make_attention_mask t T qs ks qo c) [b, 0, i, j] =
    (item qs [0, i] = item ks [b, j] \<and> (c \<longrightarrow> int j \<le> int i + item qo [b]))"
  using assms
  by (simp add: make_attention_mask_def Let_def broadcasted_iota_def add_def)

lemma card_below: "card {i. i < (n::nat) \<and> P i} \<le> n"
proof -
  have "card {i. i < n \<and> P i} \<le> card {..<n}"
    by (rule card_mono) auto
  then show ?thesis by simp
qed

lemma card_nonzero_padded:
  assumes "n \<le> (t::nat)"
  shows "card {i. i < t \<and> (if (if i < n then f i else 0) \<noteq> (0::int) then 1 else (0::int)) \<noteq> 0} =
    card {i. i < n \<and> f i \<noteq> 0}"
proof -
  from assms
  have "{i. i < t \<and> (if (if i < n then f i else 0) \<noteq> (0::int) then 1 else (0::int)) \<noteq> 0} =
      {i. i < n \<and> f i \<noteq> 0}"
    by auto
  then show ?thesis by simp
qed


text \<open>
  What \<open>sample_from_prompt\<close> does with a prompt on a cache of one row (the chunk that
  \<open>prepare_chunk\<close> makes has one row, and the update of the cache maps over the rows of
  both): every prompt token 0 gets the segment id 0, like the padding, and every other
  token the segment id 1; the row's length, reset to 0, advances by the number \<open>c\<close> of
  non-zero prompt tokens; and the key mask of the cache path is a test of the position:
  the query of a non-zero token attends exactly the key positions below \<open>c\<close> (not later
  than itself when causal), the query of a zero token or of padding none of them.
\<close>

lemma prompt_segment_ids_and_mask:
  assumes "shape tokens = [n]" and "0 < n" and "n < 2 ^ 31"
    and "shape (lengths cache) = [1]" and "static_index batch_idx 1 = Inr b"
  shows "\<exists>prompt segs.
    prepare_chunk tokens (2 ^ ceil_log2 n) 0 = Inr (prompt, segs) \<and>
    shape prompt = [1, 2 ^ ceil_log2 n] \<and> shape segs = [1, 2 ^ ceil_log2 n] \<and>
    (\<forall>i. i < n \<and> item tokens [i] = 0 \<longrightarrow> item segs [0, i] = 0) \<and>
    (\<forall>i. i < n \<and> item tokens [i] \<noteq> 0 \<longrightarrow> item segs [0, i] = 1) \<and>
    (\<forall>i. n \<le> i \<longrightarrow> item segs [0, i] = 0) \<and>
    (\<forall>w cfg logits c2 ca.
       forward be prompt segs w cfg
         (Some (cache\<lparr>lengths := reset_length (lengths cache) batch_idx\<rparr>)) =
         (Inr (logits, Some c2), ca) \<longrightarrow>
       item (lengths c2) [b] = int (card {i. i < n \<and> item tokens [i] \<noteq> 0})) \<and>
    (\<forall>idx k v k' v' qs ks qo H Tm D i j is_causal.
       cache_update be (cache\<lparr>lengths := reset_length (lengths cache) batch_idx\<rparr>) idx k v segs =
         Inr (k', v', qs, ks, qo) \<and>
       shape (cache_v cache ! idx) = [1, H, Tm, D] \<and> i < 2 ^ ceil_log2 n \<and> j < Tm \<longrightarrow>
       item (make_attention_mask (2 ^ ceil_log2 n) Tm qs ks qo is_causal) [b, 0, i, j] =
         (((i < n \<and> item tokens [i] \<noteq> 0) = (j < card {i. i < n \<and> item tokens [i] \<noteq> 0})) \<and>
          (is_causal \<longrightarrow> j \<le> i)))"
proof -
  let ?t = "2 ^ ceil_log2 n :: nat"
  let ?c1 = "cache\<lparr>lengths := reset_length (lengths cache) batch_idx\<rparr>"
  let ?cnt = "card {i. i < n \<and> item tokens [i] \<noteq> 0}"
  have nt: "n \<le> ?t" by (rule pow2_ceil_log2)
  from prepare_chunk_result [OF assms(1) nt, of 0]
  obtain prompt segs where p: "prepare_chunk tokens ?t 0 = Inr (prompt, segs)"
    "shape segs = [1, ?t]"
    "\<And>i. item segs [0, i] = (if (if i < n then item tokens [i] else 0) \<noteq> 0 then 1 else 0)"
    "shape prompt = [1, ?t]"
    by blast
  have b: "b < 1" by (rule static_index_clamp(2) [OF assms(5)])
  then have b0: "b = 0" by simp
  have l1: "shape (lengths ?c1) = [1]" "item (lengths ?c1) [b] = 0"
    using item_reset_length [OF assms(4,5)] by simp_all
  have cnt: "card {i. i < ?t \<and> item segs [0, i] \<noteq> 0} = ?cnt"
    unfolding p(3) by (rule card_nonzero_padded [OF nt])
  have "?cnt \<le> n" by (rule card_below)
  with assms(3) have "is_int32 (int ?cnt)"
    by (simp add: is_int32_def)
  then have w32: "int32 (int ?cnt) = int ?cnt"
    by (rule int32_id)
  have adv: "item (lengths c2) [b] = int ?cnt"
    if f: "forward be prompt segs w cfg (Some ?c1) = (Inr (logits, Some c2), ca)"
    for w cfg logits c2 ca
  proof -
    from forward_result [OF f]
    have "lengths c2 = amap int32 (add (lengths ?c1) (sum_last (nonzero segs)))" by auto
    with advanced_lengths [OF l1(1) p(2) b] l1(2) cnt w32 b0 show ?thesis by simp
  qed
  have mask: "item (make_attention_mask ?t Tm qs ks qo is_causal) [b, 0, i, j] =
      (((i < n \<and> item tokens [i] \<noteq> 0) = (j < ?cnt)) \<and> (is_causal \<longrightarrow> j \<le> i))"
    if u: "cache_update be ?c1 idx k v segs = Inr (k', v', qs, ks, qo)"
      and sh: "shape (cache_v cache ! idx) = [1, H, Tm, D]" and i: "i < ?t" and j: "j < Tm"
    for idx k v k' v' qs ks qo H Tm D i j is_causal
  proof -
    from sh have sh1: "shape (cache_v ?c1 ! idx) = [1, H, Tm, D]" by simp
    note ids = cache_update_ids_row [OF u sh1 l1(1) p(2)]
    have qs: "shape qs = [1, ?t]"
      "item qs [0, i] = (if i < n \<and> item tokens [i] \<noteq> 0 then 1 else 0)"
      using ids(1) p(2) by (simp_all add: p(3))
    have qo: "shape qo = [1]" "item qo [b] = 0"
      using ids(2) l1 by simp_all
    have "item ks [b, j] =
        (if int j < item (lengths ?c1) [b] + int (card {i. i < ?t \<and> item segs [0, i] \<noteq> 0})
         then 1 else 0)"
      using ids(4) [rule_format, of b j] b j by (simp only: count_nonzero)
    with l1(2) cnt have ks: "item ks [b, j] = (if j < ?cnt then 1 else 0)" by simp
    from item_make_attention_mask_row [OF qs(1) ids(3) qo(1) b i j, of is_causal] qs(2) ks qo(2)
    show ?thesis by auto
  qed
  show ?thesis
  proof (rule exI [of _ prompt], rule exI [of _ segs], intro conjI allI impI)
    show "prepare_chunk tokens ?t 0 = Inr (prompt, segs)" by (rule p(1))
    show "shape prompt = [1, ?t]" by (rule p(4))
    show "shape segs = [1, ?t]" by (rule p(2))
    show "item segs [0, i] = 0" if "i < n \<and> item tokens [i] = 0" for i
      using that by (simp add: p(3))
    show "item segs [0, i] = 1" if "i < n \<and> item tokens [i] \<noteq> 0" for i
      using that by (simp add: p(3))
    show "item segs [0, i] = 0" if "n \<le> i" for i
      using that by (simp add: p(3))
    show "item (lengths c2) [b] = int ?cnt"
      if "forward be prompt segs w cfg (Some ?c1) = (Inr (logits, Some c2), ca)"
      for w cfg logits c2 ca
      using that by (rule adv)
    show "item (make_attention_mask ?t Tm qs ks qo is_causal) [b, 0, i, j] =
      (((i < n \<and> item tokens [i] \<noteq> 0) = (j < ?cnt)) \<and> (is_causal \<longrightarrow> j \<le> i))"
      if "cache_update be ?c1 idx k v segs = Inr (k', v', qs, ks, qo) \<and>
       shape (cache_v cache ! idx) = [1, H, Tm, D] \<and> i < ?t \<and> j < Tm"
      for idx k v k' v' qs ks qo H Tm D i j is_causal
      using that mask [of idx k v k' v' qs ks qo H Tm D i j is_causal] by (elim conjE) simp
  qed
qed

text \<open>
  Claim C10 at the prompt \<open>[0, 5]\<close>, on a fresh cache of one row and four positions. The
  token 0 gets the segment id 0 and the length advances by 1, as the claim says. But the
  claim has the token 0 masked out of attention, and the key mask of the cache path marks
  the positions below the new length, here position 0 alone, which is the position of the
  token 0: the query of the token 5 (position 1) attends the key of the token 0 and not
  its own, the key of the token 0 is kept in the cache, and the key of the token 5 is
  zeroed. The mask of the path without a cache, on the same segment ids, keeps the query
  of the token 5 from the key of the token 0 and lets it attend its own.
\<close>

theorem zero_token_in_prompt_attended:
  "\<exists>prompt segs logits c2 ca k' v' qs ks qo.
     prepare_chunk \<lparr>shape = [2], item = (\<lambda>idx. if idx = [0] then 0 else 5)\<rparr> (2 ^ ceil_log2 2) 0 =
       Inr (prompt, segs) \<and>
     item prompt [0, 0] = 0 \<and> item segs [0, 0] = 0 \<and>
     item prompt [0, 1] = 5 \<and> item segs [0, 1] = 1 \<and>
     forward example_backend prompt segs (const_weights tiny_cfg 1) tiny_cfg
       (Some ((KVCache_init tiny_cfg 1 4)
          \<lparr>lengths := reset_length (lengths (KVCache_init tiny_cfg 1 4)) 0\<rparr>)) =
       (Inr (logits, Some c2), ca) \<and>
     item (lengths c2) [0] = 1 \<and>
     cache_update example_backend
       ((KVCache_init tiny_cfg 1 4)
          \<lparr>lengths := reset_length (lengths (KVCache_init tiny_cfg 1 4)) 0\<rparr>)
       0 (full [1, 1, 2, 2] 1) (full [1, 1, 2, 2] 1) segs = Inr (k', v', qs, ks, qo) \<and>
     item (make_attention_mask 2 4 qs ks qo True) [0, 0, 1, 0] \<and>
     \<not> item (make_attention_mask 2 4 qs ks qo True) [0, 0, 1, 1] \<and>
     item k' [0, 0, 0, 0] = 1 \<and> item k' [0, 0, 1, 0] = 0 \<and>
     \<not> item (make_attention_mask 2 2 segs segs (full [1] 0) True) [0, 0, 1, 0] \<and>
     item (make_attention_mask 2 2 segs segs (full [1] 0) True) [0, 0, 1, 1]"
proof -
  let ?toks = "\<lparr>shape = [2], item = (\<lambda>idx. if idx = [0] then 0 else (5::int))\<rparr>"
  let ?c1 = "(KVCache_init tiny_cfg 1 4)
          \<lparr>lengths := reset_length (lengths (KVCache_init tiny_cfg 1 4)) 0\<rparr>"
  let ?k = "full [1, 1, 2, 2] (1::real)"
  let ?w = "const_weights tiny_cfg 1"
  have two: "{..<2::nat} = {0, 1}" by auto
  have "ceil_log2 (Suc 0) = 0"
    by (subst ceil_log2.simps) simp
  then have l: "ceil_log2 2 = 1"
    by (subst ceil_log2.simps) simp
  have "shape ?toks = [2]" "2 \<le> (2::nat)" by simp_all
  from prepare_chunk_result [OF this, of 0]
  obtain prompt segs where p: "prepare_chunk ?toks 2 0 = Inr (prompt, segs)"
    "shape segs = [1, 2]"
    "\<And>i. item prompt [0, i] = (if i < 2 then item ?toks [i] else 0)"
    "\<And>i. item segs [0, i] = (if (if i < 2 then item ?toks [i] else 0) \<noteq> 0 then 1 else 0)"
    "shape prompt = [1, 2]"
    by blast
  have ps: "item prompt [0, 0] = 0" "item segs [0, 0] = 0" "item prompt [0, 1] = 5"
    "item segs [0, 1] = 1"
    by (simp_all add: p(3,4))
  have sh: "shape (cache_k ?c1 ! 0) = [1, 1, 4, 2]" "shape (cache_v ?c1 ! 0) = [1, 1, 4, 2]"
    "shape (lengths ?c1) = [1]" "0 < length (cache_k ?c1)" "0 < length (cache_v ?c1)"
    by (simp_all add: KVCache_init_def tiny_cfg_def reset_length_def)
  have ls: "item (lengths ?c1) [0] = 0"
    by (simp add: KVCache_init_def reset_length_def)
  have f: "shape prompt = [1, 2]" "2 \<le> max_seq_len tiny_cfg"
    "\<forall>layer \<in> set (layers ?w).
       shape (layer_q layer) ! 2 = key_dim tiny_cfg \<and> shape (layer_k layer) ! 2 = key_dim tiny_cfg"
    "even (key_dim tiny_cfg)" "0 < key_dim tiny_cfg"
    "length (layers ?w) \<le> length (cache_k ?c1)" "length (layers ?w) \<le> length (cache_v ?c1)"
    "\<not> use_attn_kernel tiny_cfg"
    using p(5)
    by (simp_all add: tiny_cfg_def const_weights_def const_layer_def KVCache_init_def)
  from forward_returns [OF f, of example_backend segs]
  obtain logits c2 ca where fw:
    "forward example_backend prompt segs ?w tiny_cfg (Some ?c1) = (Inr (logits, Some c2), ca)"
    by blast
  from forward_result [OF fw]
  have "lengths c2 = amap int32 (add (lengths ?c1) (sum_last (nonzero segs)))" by auto
  then have "item (lengths c2) [0] =
      int32 (item (lengths ?c1) [0] + int (card {i. i < 2 \<and> item segs [0, i] \<noteq> 0}))"
    using advanced_lengths [OF sh(3) p(2), of 0] by simp
  moreover have "int (card {i. i < 2 \<and> item segs [0, i] \<noteq> 0}) = 1"
    unfolding count_nonzero [symmetric] two using ps by simp
  ultimately have len: "item (lengths c2) [0] = 1"
    using ls by (simp add: int32_def)
  from cache_update_returns [OF sh(4,5)]
  obtain k' v' qs ks qo where
    cu: "cache_update example_backend ?c1 0 ?k ?k segs = Inr (k', v', qs, ks, qo)"
    by blast
  note ids = cache_update_ids_row [OF cu sh(2,3) p(2)]
  have ks: "item ks [0, 0] = 1" "item ks [0, 1] = 0"
    using ids(4) [rule_format, of 0 0] ids(4) [rule_format, of 0 1] ls ps
    by (simp_all add: two)
  have qs: "shape qs = [1, 2]" "item qs [0, 1] = 1"
    using ids(1) p(2) ps by simp_all
  have qo: "shape qo = [1]" "item qo [0] = 0"
    using ids(2) sh(3) ls by simp_all
  have m0: "item (make_attention_mask 2 4 qs ks qo True) [0, 0, 1, 0]"
    using item_make_attention_mask_row [OF qs(1) ids(3) qo(1), of 0 1 0 True] qs(2) ks(1) qo(2)
    by simp
  have m1: "\<not> item (make_attention_mask 2 4 qs ks qo True) [0, 0, 1, 1]"
    using item_make_attention_mask_row [OF qs(1) ids(3) qo(1), of 0 1 1 True] qs(2) ks(2) qo(2)
    by simp
  have k0: "item k' [0, 0, 0, 0] = 1"
    using cache_update_kv(3) [OF cu sh(1,2,3) p(2), of 0 0 0 0] ks(1) ls
    by (simp add: vmap_update_def clamp_start_def time_axis_def example_backend_def)
  have k1: "item k' [0, 0, 1, 0] = 0"
    using cache_update_kv(3) [OF cu sh(1,2,3) p(2), of 0 0 1 0] ks(2)
    by simp
  have z: "shape (full [1] (0::int)) = [1]" by simp
  have u0: "\<not> item (make_attention_mask 2 2 segs segs (full [1] 0) True) [0, 0, 1, 0]"
    using item_make_attention_mask_row [OF p(2) p(2) z, of 0 1 0 True] ps by simp
  have u1: "item (make_attention_mask 2 2 segs segs (full [1] 0) True) [0, 0, 1, 1]"
    using item_make_attention_mask_row [OF p(2) p(2) z, of 0 1 1 True] ps by simp
  have e: "(2::nat) ^ ceil_log2 2 = 2"
    by (simp add: l)
  from p(1) ps fw len cu m0 m1 k0 k1 u0 u1 show ?thesis
    unfolding e by blast
qed

section \<open>Token selection (claim C8)\<close>

lemma argmax_upto_first_max:
  assumes "0 < n"
  shows "argmax_upto f n < n \<and> (\<forall>j<n. f j \<le> f (argmax_upto f n)) \<and>
    (\<forall>j<argmax_upto f n. f j < f (argmax_upto f n))"
  using assms
proof (induction n)
  case 0
  then show ?case by simp
next
  case (Suc n)
  show ?case
  proof (cases "n = 0")
    case True
    then show ?thesis by simp
  next
    case False
    with Suc.IH have b: "argmax_upto f n < n" "\<forall>j<n. f j \<le> f (argmax_upto f n)"
      "\<forall>j<argmax_upto f n. f j < f (argmax_upto f n)"
      by simp_all
    show ?thesis
    proof (cases "f (argmax_upto f n) < f n")
      case True
      with b(2) have "\<forall>j<n. f j < f n" by fastforce
      with True show ?thesis by (auto simp: Let_def less_Suc_eq)
    next
      case False
      with b show ?thesis by (auto simp: Let_def less_Suc_eq)
    qed
  qed
qed

text \<open>With \<open>greedy\<close>, the token is the first position of the largest logit.\<close>

lemma sample_next_token_greedy:
  assumes "shape logits = [V]" and "0 < V"
  shows "\<exists>tok m. sample_next_token be logits temperature True = Inr tok \<and> shape tok = [] \<and>
    item tok [] = int m \<and> m < V \<and> (\<forall>j<V. item logits [j] \<le> item logits [m]) \<and>
    (\<forall>j<m. item logits [j] < item logits [m])"
  using assms argmax_upto_first_max [OF assms(2), of "\<lambda>j. item logits [j]"]
  by (simp add: sample_next_token_def argmax_last_def)

text \<open>
  Without \<open>greedy\<close>, the token is a function of the logits and the temperature: the noise
  is always that of the key \<open>PRNGKey(0)\<close>.
\<close>

lemma sample_next_token_sampling:
  assumes "temperature \<noteq> 0"
  shows "sample_next_token be logits temperature False =
    argmax_last (add (gumbel be 0 (shape logits))
      (softmax (true_divide logits (scalar temperature))))"
  using assms
  by (simp add: sample_next_token_def categorical_def Let_def softmax_def true_divide_def)

lemma softmax_two:
  assumes "shape x = [2]"
  shows "item (softmax x) [j] = exp (item x [j]) / (exp (item x [0]) + exp (item x [1]))"
proof -
  have two: "{..<2::nat} = {0, 1}" by auto
  show ?thesis using assms by (simp add: softmax_def two)
qed

lemma softmax_gap: "exp 2 / (exp 2 + exp 0) - exp 0 / (exp 2 + exp 0) < (17 / 20 :: real)"
proof -
  have "exp (2::real) = exp 1 * exp 1"
    by (simp add: exp_add [symmetric])
  also have "\<dots> \<le> 3 * 3"
    by (intro mult_mono exp_le) simp_all
  finally have le9: "exp (2::real) \<le> 9" by simp
  have pos: "0 < exp (2::real) + exp 0"
    by (simp add: add_pos_pos)
  from le9 have "exp (2::real) - exp 0 < 17 / 20 * (exp 2 + exp 0)"
    by simp
  then have "(exp (2::real) - exp 0) / (exp 2 + exp 0) < 17 / 20"
    by (simp only: pos_divide_less_eq [OF pos])
  then show ?thesis
    by (simp only: diff_divide_distrib)
qed

text \<open>
  Claim C8 at the logits \<open>[2, 0]\<close> and temperature 1, without \<open>greedy\<close>.
  \<open>jax.random.categorical\<close> reads its argument as logits and returns the arg-max of the
  argument plus Gumbel noise, which is a draw from the softmax of its argument. The claim
  has the token drawn by softmax sampling of the scaled logits, that is \<open>categorical\<close> on
  the scaled logits. The source hands \<open>categorical\<close> the softmax probabilities instead, so
  the noise is added to the probabilities, which lie between 0 and 1, and not to the
  logits. Whenever the noise of the second entry exceeds the noise of the first by at
  least 0.85 and at most 2, the source returns token 1 where the draw on the scaled logits
  returns token 0.
\<close>

theorem sample_next_token_adds_noise_to_probabilities:
  assumes "shape (gumbel be 0 [2]) = [2]"
    and "17 / 20 \<le> item (gumbel be 0 [2]) [1] - item (gumbel be 0 [2]) [0]"
    and "item (gumbel be 0 [2]) [1] - item (gumbel be 0 [2]) [0] \<le> 2"
  shows "\<exists>tok draw.
     sample_next_token be \<lparr>shape = [2], item = (\<lambda>idx. if idx = [0] then 2 else 0)\<rparr> 1 False =
       Inr tok \<and>
     item tok [] = 1 \<and>
     categorical be 0
       (true_divide \<lparr>shape = [2], item = (\<lambda>idx. if idx = [0] then 2 else 0)\<rparr> (scalar 1)) =
       Inr draw \<and>
     item draw [] = 0"
proof -
  let ?g = "gumbel be 0 [2]"
  let ?l = "\<lparr>shape = [2], item = (\<lambda>idx. if idx = [0] then 2 else (0::real))\<rparr>"
  let ?x = "true_divide ?l (scalar 1)"
  have s: "argmax_upto f 2 = (if f 0 < f 1 then 1 else 0)" for f :: "nat \<Rightarrow> real"
    by (simp add: numeral_2_eq_2)
  have x: "shape ?x = [2]" "item ?x [0] = 2" "item ?x [1] = 0"
    by (simp_all add: true_divide_def)
  have p: "item (softmax ?x) [0] = exp 2 / (exp 2 + exp 0)"
    "item (softmax ?x) [1] = exp 0 / (exp 2 + exp 0)"
    "shape (softmax ?x) = [2]"
    using x by (simp_all only: softmax_two [OF x(1)]) (simp add: softmax_def)
  from softmax_gap assms(2) p(1,2)
  have code: "item ?g [0] + item (softmax ?x) [0] < item ?g [1] + item (softmax ?x) [1]"
    by linarith
  from assms(3) x(2,3) have draw: "\<not> item ?g [0] + item ?x [0] < item ?g [1] + item ?x [1]"
    by linarith
  have c: "sample_next_token be ?l 1 False = argmax_last (add ?g (softmax ?x))"
    using x(1) by (simp add: sample_next_token_def categorical_def Let_def softmax_def)
  have d: "categorical be 0 ?x = argmax_last (add ?g ?x)"
    using x(1) by (simp add: categorical_def)
  have "\<exists>tok. argmax_last (add ?g (softmax ?x)) = Inr tok \<and> item tok [] = 1"
    using code assms(1) p(3) by (simp add: argmax_last_def add_def s)
  moreover have "\<exists>draw. argmax_last (add ?g ?x) = Inr draw \<and> item draw [] = 0"
    using draw assms(1) x(1) by (simp add: argmax_last_def add_def s)
  ultimately show ?thesis
    unfolding c d by blast
qed

text \<open>
  The noise of \<open>PRNGKey(0)\<close> lies in that range, under either generator: the differences
  are 1.9493 and 0.9092.
\<close>

theorem sample_next_token_adds_noise_to_probabilities_witness:
  "(\<exists>tok draw.
     sample_next_token threefry_backend
       \<lparr>shape = [2], item = (\<lambda>idx. if idx = [0] then 2 else 0)\<rparr> 1 False = Inr tok \<and>
     item tok [] = 1 \<and>
     categorical threefry_backend 0
       (true_divide \<lparr>shape = [2], item = (\<lambda>idx. if idx = [0] then 2 else 0)\<rparr> (scalar 1)) =
       Inr draw \<and>
     item draw [] = 0) \<and>
   (\<exists>tok draw.
     sample_next_token threefry_partitionable_backend
       \<lparr>shape = [2], item = (\<lambda>idx. if idx = [0] then 2 else 0)\<rparr> 1 False = Inr tok \<and>
     item tok [] = 1 \<and>
     categorical threefry_partitionable_backend 0
       (true_divide \<lparr>shape = [2], item = (\<lambda>idx. if idx = [0] then 2 else 0)\<rparr> (scalar 1)) =
       Inr draw \<and>
     item draw [] = 0)"
proof
  show "\<exists>tok draw.
     sample_next_token threefry_backend
       \<lparr>shape = [2], item = (\<lambda>idx. if idx = [0] then 2 else 0)\<rparr> 1 False = Inr tok \<and>
     item tok [] = 1 \<and>
     categorical threefry_backend 0
       (true_divide \<lparr>shape = [2], item = (\<lambda>idx. if idx = [0] then 2 else 0)\<rparr> (scalar 1)) =
       Inr draw \<and>
     item draw [] = 0"
    by (rule sample_next_token_adds_noise_to_probabilities)
      (simp_all add: threefry_backend_def)
  show "\<exists>tok draw.
     sample_next_token threefry_partitionable_backend
       \<lparr>shape = [2], item = (\<lambda>idx. if idx = [0] then 2 else 0)\<rparr> 1 False = Inr tok \<and>
     item tok [] = 1 \<and>
     categorical threefry_partitionable_backend 0
       (true_divide \<lparr>shape = [2], item = (\<lambda>idx. if idx = [0] then 2 else 0)\<rparr> (scalar 1)) =
       Inr draw \<and>
     item draw [] = 0"
    by (rule sample_next_token_adds_noise_to_probabilities)
      (simp_all add: threefry_partitionable_backend_def)
qed

section \<open>Decoding one token with a cache (towards claim C1)\<close>

text \<open>
  Claim C1 compares the logits of cached, token-by-token decoding with those of one
  uncached pass, up to floating-point tolerance. The two computations are not equal over
  the real numbers (the cache holds rounded keys and values, and a masked position has
  the softmax weight \<open>exp (sentinel - \<dots>)\<close>, which is zero only by underflow), so the claim
  itself is not stated here. What the two paths share exactly is the set of keys a query
  attends when the configuration is causal: a decode step on a row of prior length \<open>p\<close>
  attends the cache positions \<open>0 \<dots> p\<close>, as does the query at position \<open>p\<close> of an uncached
  pass over one segment.
\<close>

lemma decode_step_mask:
  assumes "cache_update be c idx k v segs = Inr (k', v', qs, ks, qo)"
    and "shape (cache_v c ! idx) = [B, H, Tm, D]" and "shape (lengths c) = [B]"
    and "shape segs = [B, 1]"
    and "b < B" and "j < Tm" and "item segs [b, 0] \<noteq> 0"
  shows "item (make_attention_mask 1 Tm qs ks qo True) [b, 0, 0, j] =
    (int j \<le> item (lengths c) [b])"
proof -
  note ids = cache_update_ids [OF assms(1,2,3,4)]
  have qs: "shape qs = [B, 1]" "item qs [b, 0] = 1"
    using ids(1) assms(4,7) by simp_all
  have qo: "shape qo = [B]" "item qo [b] = item (lengths c) [b]"
    using ids(2) assms(3) by simp_all
  have ks: "item ks [b, j] = (if int j < item (lengths c) [b] + 1 then 1 else 0)"
    using ids(4) [rule_format, of b j] assms(5,6,7) by simp
  from item_make_attention_mask [OF qs(1) ids(3) qo(1) assms(5) _ assms(6), of 0 True] qs(2) ks qo(2)
  show ?thesis by auto
qed

lemma uncached_causal_mask:
  assumes "shape segs = [B, n]" and "\<forall>i<n. item segs [b, i] = 1"
    and "b < B" and "p < n" and "j < n"
  shows "item (make_attention_mask n n segs segs (full [B] 0) True) [b, 0, p, j] = (j \<le> p)"
  using item_make_attention_mask [OF assms(1,1) _ assms(3,4,5), of "full [B] 0" True] assms(2,4,5)
  by simp

end
